theory Spec2Isabelle
  imports Main "HOL-Library.Word"
begin

section \<open>Gateway-side LoRa session manager (lora\_manager.cpp, protocol.h, config.h)\<close>

text \<open>
  Machine types of the source: \<open>uint8_t\<close>, \<open>int8_t\<close> (read with \<open>sint\<close>), \<open>uint16_t\<close>
  and \<open>uint32_t\<close> are words; \<open>millis()\<close> is a \<open>uint32_t\<close> that wraps around.
  A member or function whose C++ name starts with an underscore keeps its name without it.
\<close>

type_synonym u8 = "8 word"
type_synonym i8 = "8 word"
type_synonym u16 = "16 word"
type_synonym u32 = "32 word"

text \<open>\<open>uint8_t macAddr[MAC_ADDR_LEN]\<close> with \<open>MAC_ADDR_LEN = 6\<close>; \<open>memcmp\<close> over the six
  bytes is equality, \<open>memcpy\<close> is assignment.\<close>

datatype mac = MAC u8 u8 u8 u8 u8 u8

definition macBytes :: "mac \<Rightarrow> u8 list" where
  "macBytes m = (case m of MAC m0 m1 m2 m3 m4 m5 \<Rightarrow> [m0, m1, m2, m3, m4, m5])"

subsection \<open>Constants (protocol.h, config.h, lora\_manager.cpp)\<close>

definition PKG_HELLO :: u8 where "PKG_HELLO = 0x01"
definition PKG_WELCOME :: u8 where "PKG_WELCOME = 0x02"
definition PKG_ACK :: u8 where "PKG_ACK = 0x03"
definition PKG_DATA :: u8 where "PKG_DATA = 0x04"
definition PKG_HEARTBEAT :: u8 where "PKG_HEARTBEAT = 0x07"

definition DEV_TYPE_RELAY_2CH :: u8 where "DEV_TYPE_RELAY_2CH = 0x01"
definition ERR_NONE :: u8 where "ERR_NONE = 0x00"

definition LORA_SCAN_DURATION :: u32 where "LORA_SCAN_DURATION = 60000"
definition LORA_PAIRING_TIMEOUT :: u32 where "LORA_PAIRING_TIMEOUT = 10000"
definition NODE_OFFLINE_THRESHOLD :: u32 where "NODE_OFFLINE_THRESHOLD = 120000"
definition MAX_NODES :: nat where "MAX_NODES = 32"
definition MAX_DISCOVERED_NODES :: nat where "MAX_DISCOVERED_NODES = 16"

subsection \<open>Packets (protocol.h, packed structs) and their decoding by pointer cast\<close>

record HelloPacket_t =
  hello_type :: u8
  hello_macAddr :: mac
  hello_deviceType :: u8
  hello_fwVersion :: u8

record AckPacket_t =
  ack_type :: u8
  ack_nodeID :: u8
  ack_ackType :: u8
  ack_status :: u8

record DataPacket_t =
  data_type :: u8
  data_nodeID :: u8
  data_relayStatus :: u8
  data_rssi :: i8
  data_snr :: i8
  data_batteryLevel :: u8
  data_uptime :: u32

record HeartbeatPacket_t =
  hb_type :: u8
  hb_nodeID :: u8
  hb_relayStatus :: u8
  hb_errorFlags :: u8
  hb_seqNum :: u16

text \<open>\<open>sizeof\<close> of the packed structs.\<close>

definition sizeof_HelloPacket_t :: nat where "sizeof_HelloPacket_t = 9"
definition sizeof_AckPacket_t :: nat where "sizeof_AckPacket_t = 4"
definition sizeof_DataPacket_t :: nat where "sizeof_DataPacket_t = 10"
definition sizeof_HeartbeatPacket_t :: nat where "sizeof_HeartbeatPacket_t = 6"

text \<open>The casts \<open>(HelloPacket_t*)data\<close> etc.: fields at fixed offsets, multi-byte fields
  little-endian. Each is applied only to a buffer at least as long as the struct.\<close>

definition asHello :: "u8 list \<Rightarrow> HelloPacket_t" where
  "asHello d = \<lparr> hello_type = d ! 0,
                 hello_macAddr = MAC (d ! 1) (d ! 2) (d ! 3) (d ! 4) (d ! 5) (d ! 6),
                 hello_deviceType = d ! 7,
                 hello_fwVersion = d ! 8 \<rparr>"

definition asAck :: "u8 list \<Rightarrow> AckPacket_t" where
  "asAck d = \<lparr> ack_type = d ! 0, ack_nodeID = d ! 1, ack_ackType = d ! 2, ack_status = d ! 3 \<rparr>"

definition asData :: "u8 list \<Rightarrow> DataPacket_t" where
  "asData d = \<lparr> data_type = d ! 0, data_nodeID = d ! 1, data_relayStatus = d ! 2,
                data_rssi = d ! 3, data_snr = d ! 4, data_batteryLevel = d ! 5,
                data_uptime = word_of_nat (unat (d ! 6) + 256 * unat (d ! 7) +
                                           65536 * unat (d ! 8) + 16777216 * unat (d ! 9)) \<rparr>"

definition asHeartbeat :: "u8 list \<Rightarrow> HeartbeatPacket_t" where
  "asHeartbeat d = \<lparr> hb_type = d ! 0, hb_nodeID = d ! 1, hb_relayStatus = d ! 2,
                     hb_errorFlags = d ! 3,
                     hb_seqNum = word_of_nat (unat (d ! 4) + 256 * unat (d ! 5)) \<rparr>"

subsection \<open>Node records and pairing state (lora\_manager.h)\<close>

record DiscoveredNode =
  d_macAddr :: mac
  d_deviceType :: u8
  d_fwVersion :: u8
  d_rssi :: i8
  d_snr :: i8
  d_discoveredAt :: u32
  d_valid :: bool

record RegisteredNode =
  nodeID :: u8
  macAddr :: mac
  deviceType :: u8
  name :: string
  relayStatus :: u8
  lastRSSI :: i8
  lastSNR :: i8
  uptime :: u32
  lastSeen :: u32
  online :: bool
  valid :: bool

datatype PairingState_t = PAIR_IDLE | PAIR_WAITING_ACK | PAIR_SUCCESS | PAIR_TIMEOUT | PAIR_FAILED

subsection \<open>The nodes file and the effects visible outside the manager\<close>

text \<open>
  One record of the \<open>nodes\<close> array of \<open>/nodes.json\<close>, as the ArduinoJson accessors of
  \<open>loadNodes\<close> deliver it: \<open>nodeObj["id"]\<close> and \<open>nodeObj["type"]\<close> converted to
  \<open>uint8_t\<close>, \<open>nodeObj["mac"].as<String>()\<close>, and \<open>nodeObj["name"]\<close>, which is \<open>None\<close>
  when it is not a string (the source then takes \<open>"Unknown"\<close>).
\<close>

record json_node =
  j_id :: u8
  j_mac :: string
  j_type :: u8
  j_name :: "string option"

text \<open>The file as \<open>loadNodes\<close> can find it: absent, present but not openable,
  not parseable, or parsed into its \<open>nodes\<close> array (empty when the key is missing).\<close>

datatype nodes_file = NoFile | OpenFails | ParseError | Parsed "json_node list"

text \<open>Calls that leave the manager, in the order they happen: the three callbacks,
  \<open>_sendPacket\<close> (payload and result) and \<open>saveNodes\<close> (result). Serial log output is
  not recorded.\<close>

datatype event =
    PairingCallback u8 bool
  | NodeDiscoveredCallback DiscoveredNode
  | NodeDataCallback u8 DataPacket_t
  | SendPacket "u8 list" bool
  | SaveNodes bool

subsection \<open>The manager object\<close>

text \<open>
  The members of \<open>class LoRaManager\<close>. \<open>initialized\<close> stands for
  \<open>_serial && _initialized\<close> (both are set by \<open>begin\<close> only); a callback member is
  \<open>True\<close> when a function has been stored in it. The receive line buffer belongs to the
  framing layer, which is represented by the payloads it hands to \<open>_handlePacket\<close>.
  \<open>nodesFile\<close> and \<open>flashWritable\<close> are the LittleFS side: the content of
  \<open>NODES_FILE_PATH\<close> and whether opening it for writing succeeds. \<open>events\<close> is the
  trace of outside calls.
\<close>

record LoRaManager =
  initialized :: bool
  scanMode :: bool
  scanStartTime :: u32
  scanDuration :: u32
  discoveredNodes :: "DiscoveredNode list"
  pairingState :: PairingState_t
  pairingMAC :: mac
  pairingNodeID :: u8
  pairingStartTime :: u32
  registeredNodes :: "RegisteredNode list"
  nodeDataCallback :: bool
  nodeDiscoveredCallback :: bool
  pairingCallback :: bool
  lastNodeCheck :: u32
  nodesFile :: nodes_file
  flashWritable :: bool
  events :: "event list"

text \<open>The constructor, on a given flash content.\<close>

definition LoRaManager_new :: "nodes_file \<Rightarrow> bool \<Rightarrow> LoRaManager" where
  "LoRaManager_new file writable =
     \<lparr> initialized = False, scanMode = False, scanStartTime = 0,
       scanDuration = LORA_SCAN_DURATION, discoveredNodes = [],
       pairingState = PAIR_IDLE, pairingMAC = MAC 0 0 0 0 0 0, pairingNodeID = 0,
       pairingStartTime = 0, registeredNodes = [],
       nodeDataCallback = False, nodeDiscoveredCallback = False, pairingCallback = False,
       lastNodeCheck = 0, nodesFile = file, flashWritable = writable, events = [] \<rparr>"

definition onNodeData :: "LoRaManager \<Rightarrow> LoRaManager" where
  "onNodeData s = s\<lparr>nodeDataCallback := True\<rparr>"

definition onNodeDiscovered :: "LoRaManager \<Rightarrow> LoRaManager" where
  "onNodeDiscovered s = s\<lparr>nodeDiscoveredCallback := True\<rparr>"

definition onPairingComplete :: "LoRaManager \<Rightarrow> LoRaManager" where
  "onPairingComplete s = s\<lparr>pairingCallback := True\<rparr>"

definition emit :: "event \<Rightarrow> LoRaManager \<Rightarrow> LoRaManager" where
  "emit e s = s\<lparr>events := events s @ [e]\<rparr>"

subsection \<open>Utility functions: \<open>macToString\<close> and \<open>stringToMAC\<close>\<close>

text \<open>\<open>snprintf\<close> with \<open>%02X\<close>: the value in upper-case hexadecimal, padded with
  zeros on the left to at least two characters.\<close>

definition hexDigitUpper :: "nat \<Rightarrow> char" where
  "hexDigitUpper d = ''0123456789ABCDEF'' ! d"

fun hexUpper :: "nat \<Rightarrow> string" where
  "hexUpper n = (if n < 16 then [hexDigitUpper n]
                 else hexUpper (n div 16) @ [hexDigitUpper (n mod 16)])"

declare hexUpper.simps [simp del]

definition fmt02X :: "u8 \<Rightarrow> string" where
  "fmt02X b = (let ds = hexUpper (unat b) in replicate (2 - length ds) (CHR ''0'') @ ds)"

text \<open>\<open>char str[18]; snprintf(str, sizeof(str), ...)\<close> keeps at most 17 characters.\<close>

definition macToString :: "mac \<Rightarrow> string" where
  "macToString m = (case m of MAC m0 m1 m2 m3 m4 m5 \<Rightarrow>
     take 17 (fmt02X m0 @ '':'' @ fmt02X m1 @ '':'' @ fmt02X m2 @ '':'' @
              fmt02X m3 @ '':'' @ fmt02X m4 @ '':'' @ fmt02X m5))"

text \<open>
  \<open>sscanf\<close> with \<open>%x\<close>, as the C library reads it: white space is skipped, then an
  optional sign, an optional \<open>0x\<close> or \<open>0X\<close> in front of a digit, and the longest run of
  hexadecimal digits, at least one. The value is that of \<open>strtoul\<close>: clamped to
  \<open>ULONG_MAX\<close> (32 bits on the target), negated modulo \<open>2^32\<close> after a minus sign.
\<close>

definition isspace :: "char \<Rightarrow> bool" where
  "isspace c = (c = CHR '' '' \<or> c = CHR 0x09 \<or> c = CHR 0x0A \<or> c = CHR 0x0B \<or>
                c = CHR 0x0C \<or> c = CHR 0x0D)"

definition hexDigitValue :: "char \<Rightarrow> nat option" where
  "hexDigitValue c =
     (let n = (of_char c :: nat) in
      if 48 \<le> n \<and> n \<le> 57 then Some (n - 48)
      else if 65 \<le> n \<and> n \<le> 70 then Some (n - 55)
      else if 97 \<le> n \<and> n \<le> 102 then Some (n - 87)
      else None)"

fun scanHexDigits :: "nat \<Rightarrow> string \<Rightarrow> nat \<times> string" where
  "scanHexDigits acc [] = (acc, [])"
| "scanHexDigits acc (c # cs) =
     (case hexDigitValue c of
        None \<Rightarrow> (acc, c # cs)
      | Some d \<Rightarrow> scanHexDigits (16 * acc + d) cs)"

definition skipSign :: "string \<Rightarrow> bool \<times> string" where
  "skipSign s = (case s of
       [] \<Rightarrow> (False, [])
     | c # cs \<Rightarrow> if c = CHR ''-'' then (True, cs)
                else if c = CHR ''+'' then (False, cs) else (False, s))"

definition skipHexPrefix :: "string \<Rightarrow> string" where
  "skipHexPrefix s = (case s of
       c0 # cx # c1 # cs \<Rightarrow>
         if c0 = CHR ''0'' \<and> (cx = CHR ''x'' \<or> cx = CHR ''X'') \<and> hexDigitValue c1 \<noteq> None
         then c1 # cs else s
     | _ \<Rightarrow> s)"

definition scanf_x :: "string \<Rightarrow> (u32 \<times> string) option" where
  "scanf_x s =
     (let (neg, s2) = skipSign (dropWhile isspace s);
          s3 = skipHexPrefix s2
      in case s3 of
           [] \<Rightarrow> None
         | c # cs \<Rightarrow>
             (case hexDigitValue c of
                None \<Rightarrow> None
              | Some _ \<Rightarrow>
                  let (v, rest) = scanHexDigits 0 s3;
                      w = (word_of_nat (min v (2 ^ 32 - 1)) :: u32)
                  in Some (if neg then - w else w, rest)))"

text \<open>\<open>sscanf(str, "%x:%x:%x:%x:%x:%x", ...)\<close> with \<open>n\<close> conversions left: the values
  converted before the first failure; their number is what \<open>sscanf\<close> returns.\<close>

fun sscanf_hex_colon :: "nat \<Rightarrow> string \<Rightarrow> u32 list" where
  "sscanf_hex_colon 0 s = []"
| "sscanf_hex_colon (Suc n) s =
     (case scanf_x s of
        None \<Rightarrow> []
      | Some (v, rest) \<Rightarrow>
          v # (if n = 0 then []
               else (case rest of
                       [] \<Rightarrow> []
                     | c # cs \<Rightarrow> if c = CHR '':'' then sscanf_hex_colon n cs else [])))"

text \<open>\<open>stringToMAC(str, mac)\<close>: the result and the content of \<open>mac\<close> afterwards, which
  is written only on success (\<open>values[i]\<close> cast to \<open>uint8_t\<close>).\<close>

definition stringToMAC :: "string \<Rightarrow> mac \<Rightarrow> bool \<times> mac" where
  "stringToMAC str m =
     (if length str < 17 then (False, m)
      else let vals = sscanf_hex_colon 6 str in
        if length vals \<noteq> 6 then (False, m)
        else (True, MAC (ucast (vals ! 0)) (ucast (vals ! 1)) (ucast (vals ! 2))
                        (ucast (vals ! 3)) (ucast (vals ! 4)) (ucast (vals ! 5))))"

text \<open>\<open>snprintf(node.name, sizeof(node.name), "Node_%d", id)\<close> and
  \<open>strlcpy(node.name, src, sizeof(node.name))\<close> into \<open>char name[32]\<close>.\<close>

fun decStr :: "nat \<Rightarrow> string" where
  "decStr n = (if n < 10 then [char_of (48 + n)]
               else decStr (n div 10) @ [char_of (48 + n mod 10)])"

declare decStr.simps [simp del]

definition nodeName :: "u8 \<Rightarrow> string" where
  "nodeName k = take 31 (''Node_'' @ decStr (unat k))"

definition strlcpy32 :: "string \<Rightarrow> string" where
  "strlcpy32 src = take 31 (takeWhile (\<lambda>c. c \<noteq> CHR 0x00) src)"

subsection \<open>Registry queries and ID allocation\<close>

fun isNodeRegistered :: "RegisteredNode list \<Rightarrow> mac \<Rightarrow> bool" where
  "isNodeRegistered [] m = False"
| "isNodeRegistered (node # rest) m =
     (if valid node \<and> macAddr node = m then True else isNodeRegistered rest m)"

fun isDuplicateDiscovered :: "DiscoveredNode list \<Rightarrow> mac \<Rightarrow> bool" where
  "isDuplicateDiscovered [] m = False"
| "isDuplicateDiscovered (node # rest) m =
     (if d_macAddr node = m then True else isDuplicateDiscovered rest m)"

text \<open>\<open>getNodeByID\<close> returns a pointer into the vector: here the index of the element,
  \<open>None\<close> for \<open>nullptr\<close>.\<close>

fun getNodeByID :: "RegisteredNode list \<Rightarrow> u8 \<Rightarrow> nat option" where
  "getNodeByID [] k = None"
| "getNodeByID (node # rest) k =
     (if valid node \<and> nodeID node = k then Some 0 else map_option Suc (getNodeByID rest k))"

fun getNodeByMAC :: "RegisteredNode list \<Rightarrow> mac \<Rightarrow> nat option" where
  "getNodeByMAC [] m = None"
| "getNodeByMAC (node # rest) m =
     (if valid node \<and> macAddr node = m then Some 0 else map_option Suc (getNodeByMAC rest m))"

text \<open>\<open>_getNextFreeID\<close>: the array \<open>bool used[256]\<close>, indexed by a \<open>uint8_t\<close>, is a
  function on bytes; then the loop \<open>for (uint8_t id = 1; id < 255; id++)\<close>.\<close>

definition usedIDs :: "RegisteredNode list \<Rightarrow> u8 \<Rightarrow> bool" where
  "usedIDs regs =
     foldl (\<lambda>used node. if valid node then used(nodeID node := True) else used)
           ((\<lambda>_. False)(0 := True, 255 := True)) regs"

function firstFreeFrom :: "(u8 \<Rightarrow> bool) \<Rightarrow> u8 \<Rightarrow> u8" where
  "firstFreeFrom used i =
     (if i < 255 then (if \<not> used i then i else firstFreeFrom used (i + 1)) else 0)"
  by pat_completeness auto
termination
  by (relation "measure (\<lambda>(used, i). 255 - unat i)")
     (auto simp: word_less_nat_alt unat_word_ariths)

declare firstFreeFrom.simps [simp del]

definition getNextFreeID :: "RegisteredNode list \<Rightarrow> u8" where
  "getNextFreeID regs = firstFreeFrom (usedIDs regs) 1"

fun getOnlineNodeCount :: "RegisteredNode list \<Rightarrow> u8" where
  "getOnlineNodeCount [] = 0"
| "getOnlineNodeCount (node # rest) =
     (if valid node \<and> online node then 1 else 0) + getOnlineNodeCount rest"

subsection \<open>Persistence\<close>

definition toJson :: "RegisteredNode \<Rightarrow> json_node" where
  "toJson node = \<lparr> j_id = nodeID node, j_mac = macToString (macAddr node),
                   j_type = deviceType node, j_name = Some (name node) \<rparr>"

definition saveNodes :: "LoRaManager \<Rightarrow> bool \<times> LoRaManager" where
  "saveNodes s =
     (let doc = map toJson (filter valid (registeredNodes s)) in
      if \<not> flashWritable s then (False, emit (SaveNodes False) s)
      else (True, emit (SaveNodes True) (s\<lparr>nodesFile := Parsed doc\<rparr>)))"

text \<open>
  One pass of the loop of \<open>loadNodes\<close> over the records. The local
  \<open>RegisteredNode node\<close> is not initialised and the result of \<open>stringToMAC\<close> is not
  looked at, so when the MAC string is rejected \<open>node.macAddr\<close> keeps what the memory of
  the local held before: \<open>before\<close> is that content.
\<close>

definition fromJson :: "mac \<Rightarrow> json_node \<Rightarrow> RegisteredNode" where
  "fromJson before j =
     \<lparr> nodeID = j_id j,
       macAddr = snd (stringToMAC (j_mac j) before),
       deviceType = j_type j,
       name = strlcpy32 (case j_name j of None \<Rightarrow> ''Unknown'' | Some n \<Rightarrow> n),
       relayStatus = 0, lastRSSI = 0, lastSNR = 0, uptime = 0, lastSeen = 0,
       online = False, valid = True \<rparr>"

text \<open>
  The loop itself, from pass \<open>i\<close> on. What the local holds at the start of a pass is not
  determined by the source (on the target it is what the stack slot was left with, for
  instance by the pass before): \<open>uninit i\<close> is the content of \<open>node.macAddr\<close> at the
  start of pass \<open>i\<close>, one value for each pass.
\<close>

fun loadLoop :: "(nat \<Rightarrow> mac) \<Rightarrow> nat \<Rightarrow> json_node list \<Rightarrow> RegisteredNode list" where
  "loadLoop uninit i [] = []"
| "loadLoop uninit i (j # rest) = fromJson (uninit i) j # loadLoop uninit (Suc i) rest"

definition loadNodes :: "LoRaManager \<Rightarrow> (nat \<Rightarrow> mac) \<Rightarrow> bool \<times> LoRaManager" where
  "loadNodes s uninit =
     (case nodesFile s of
        NoFile \<Rightarrow> (False, s)
      | OpenFails \<Rightarrow> (False, s)
      | ParseError \<Rightarrow> (False, s)
      | Parsed arr \<Rightarrow> (True, s\<lparr>registeredNodes := loadLoop uninit 0 arr\<rparr>))"

text \<open>\<open>begin\<close> (a keyword here, hence \<open>lora_begin\<close>): the dialogue with the modem (AT
  commands, each with a bounded wait) leaves the members alone; then
  \<open>loadNodes(); _initialized = true; return true\<close>.\<close>

definition lora_begin :: "LoRaManager \<Rightarrow> (nat \<Rightarrow> mac) \<Rightarrow> bool \<times> LoRaManager" where
  "lora_begin s uninit =
     (let s1 = snd (loadNodes s uninit) in (True, s1\<lparr>initialized := True\<rparr>))"

fun eraseFirstID :: "RegisteredNode list \<Rightarrow> u8 \<Rightarrow> RegisteredNode list option" where
  "eraseFirstID [] k = None"
| "eraseFirstID (node # rest) k =
     (if nodeID node = k then Some rest else map_option ((#) node) (eraseFirstID rest k))"

definition removeNode :: "LoRaManager \<Rightarrow> u8 \<Rightarrow> bool \<times> LoRaManager" where
  "removeNode s k =
     (case eraseFirstID (registeredNodes s) k of
        None \<Rightarrow> (False, s)
      | Some regs \<Rightarrow> (True, snd (saveNodes (s\<lparr>registeredNodes := regs\<rparr>))))"

definition updateNodeOnlineStatus :: "LoRaManager \<Rightarrow> u32 \<Rightarrow> LoRaManager" where
  "updateNodeOnlineStatus s now =
     s\<lparr>registeredNodes :=
         map (\<lambda>node. if valid node \<and> online node \<and> now - lastSeen node > NODE_OFFLINE_THRESHOLD
                     then node\<lparr>online := False\<rparr> else node)
             (registeredNodes s)\<rparr>"

subsection \<open>Transmission\<close>

text \<open>\<open>_sendPacket\<close>: nothing is sent before \<open>begin\<close>; otherwise the payload goes to the
  modem and the result is the modem's answer \<open>txOk\<close> (\<open>OK\<close> seen within
  \<open>LORA_TX_TIMEOUT\<close>). \<open>_sendWelcome\<close> packs a \<open>WelcomePacket_t\<close>.\<close>

definition sendPacket :: "LoRaManager \<Rightarrow> u8 list \<Rightarrow> bool \<Rightarrow> bool \<times> LoRaManager" where
  "sendPacket s bytes txOk =
     (if \<not> initialized s then (False, s) else (txOk, emit (SendPacket bytes txOk) s))"

definition sendWelcome :: "LoRaManager \<Rightarrow> mac \<Rightarrow> u8 \<Rightarrow> bool \<Rightarrow> bool \<times> LoRaManager" where
  "sendWelcome s m k txOk = sendPacket s ([PKG_WELCOME] @ macBytes m @ [k, 0]) txOk"

subsection \<open>Scan mode\<close>

definition clearDiscoveredNodes :: "LoRaManager \<Rightarrow> LoRaManager" where
  "clearDiscoveredNodes s = s\<lparr>discoveredNodes := []\<rparr>"

definition startScan :: "LoRaManager \<Rightarrow> u32 \<Rightarrow> u32 \<Rightarrow> LoRaManager" where
  "startScan s duration now =
     clearDiscoveredNodes (s\<lparr>scanMode := True, scanStartTime := now, scanDuration := duration\<rparr>)"

definition stopScan :: "LoRaManager \<Rightarrow> LoRaManager" where
  "stopScan s = s\<lparr>scanMode := False\<rparr>"

definition addDiscoveredNode ::
  "LoRaManager \<Rightarrow> HelloPacket_t \<Rightarrow> i8 \<Rightarrow> i8 \<Rightarrow> u32 \<Rightarrow> LoRaManager" where
  "addDiscoveredNode s pkt rssi snr now =
     (if length (discoveredNodes s) \<ge> MAX_DISCOVERED_NODES then s
      else let node = \<lparr> d_macAddr = hello_macAddr pkt, d_deviceType = hello_deviceType pkt,
                         d_fwVersion = hello_fwVersion pkt, d_rssi = rssi, d_snr = snr,
                         d_discoveredAt = now, d_valid = True \<rparr>;
               s1 = s\<lparr>discoveredNodes := discoveredNodes s @ [node]\<rparr>
           in if nodeDiscoveredCallback s1 then emit (NodeDiscoveredCallback node) s1 else s1)"

definition handleHello ::
  "LoRaManager \<Rightarrow> HelloPacket_t \<Rightarrow> i8 \<Rightarrow> i8 \<Rightarrow> u32 \<Rightarrow> LoRaManager" where
  "handleHello s pkt rssi snr now =
     (if \<not> scanMode s then s
      else if isDuplicateDiscovered (discoveredNodes s) (hello_macAddr pkt) then s
      else if isNodeRegistered (registeredNodes s) (hello_macAddr pkt) then s
      else addDiscoveredNode s pkt rssi snr now)"

subsection \<open>Pairing\<close>

definition startPairing :: "LoRaManager \<Rightarrow> mac \<Rightarrow> u32 \<Rightarrow> bool \<Rightarrow> bool \<times> LoRaManager" where
  "startPairing s m now txOk =
     (if pairingState s \<noteq> PAIR_IDLE then (False, s)
      else if isNodeRegistered (registeredNodes s) m then (False, s)
      else let s1 = s\<lparr>pairingNodeID := getNextFreeID (registeredNodes s)\<rparr> in
        if pairingNodeID s1 = 0 then (False, s1)
        else let s2 = s1\<lparr>pairingMAC := m, pairingStartTime := now,
                         pairingState := PAIR_WAITING_ACK\<rparr>
             in sendWelcome s2 m (pairingNodeID s2) txOk)"

definition cancelPairing :: "LoRaManager \<Rightarrow> LoRaManager" where
  "cancelPairing s = s\<lparr>pairingState := PAIR_IDLE, pairingMAC := MAC 0 0 0 0 0 0,
                        pairingNodeID := 0\<rparr>"

text \<open>The loop of \<open>_handleAck\<close> over \<open>_discoveredNodes\<close> that stops at the first entry
  with the MAC of the session.\<close>

fun discoveredType :: "DiscoveredNode list \<Rightarrow> mac \<Rightarrow> u8 \<Rightarrow> u8" where
  "discoveredType [] m dflt = dflt"
| "discoveredType (dNode # rest) m dflt =
     (if d_macAddr dNode = m then d_deviceType dNode else discoveredType rest m dflt)"

definition newRegisteredNode :: "LoRaManager \<Rightarrow> u32 \<Rightarrow> RegisteredNode" where
  "newRegisteredNode s now =
     \<lparr> nodeID = pairingNodeID s,
       macAddr = pairingMAC s,
       deviceType = discoveredType (discoveredNodes s) (pairingMAC s) DEV_TYPE_RELAY_2CH,
       name = nodeName (pairingNodeID s),
       relayStatus = 0, lastRSSI = 0, lastSNR = 0, uptime = 0, lastSeen = now,
       online = True, valid = True \<rparr>"

definition handleAck :: "LoRaManager \<Rightarrow> AckPacket_t \<Rightarrow> u32 \<Rightarrow> LoRaManager" where
  "handleAck s pkt now =
     (if pairingState s = PAIR_WAITING_ACK \<and> ack_ackType pkt = PKG_WELCOME then
        (if ack_status pkt = ERR_NONE then
           let s1 = s\<lparr>registeredNodes := registeredNodes s @ [newRegisteredNode s now]\<rparr>;
               s2 = snd (saveNodes s1);
               s3 = s2\<lparr>pairingState := PAIR_SUCCESS\<rparr>;
               s4 = (if pairingCallback s3 then emit (PairingCallback (pairingNodeID s3) True) s3
                     else s3)
           in s4\<lparr>pairingState := PAIR_IDLE\<rparr>
         else
           let s1 = s\<lparr>pairingState := PAIR_FAILED\<rparr>;
               s2 = (if pairingCallback s1 then emit (PairingCallback (pairingNodeID s1) False) s1
                     else s1)
           in s2\<lparr>pairingState := PAIR_IDLE\<rparr>)
      else s)"

subsection \<open>Data and heartbeat\<close>

definition handleData :: "LoRaManager \<Rightarrow> DataPacket_t \<Rightarrow> u32 \<Rightarrow> LoRaManager" where
  "handleData s pkt now =
     (case getNodeByID (registeredNodes s) (data_nodeID pkt) of
        None \<Rightarrow> s
      | Some i \<Rightarrow>
          let node = (registeredNodes s ! i)
                       \<lparr>relayStatus := data_relayStatus pkt, lastRSSI := data_rssi pkt,
                        lastSNR := data_snr pkt, uptime := data_uptime pkt,
                        lastSeen := now, online := True\<rparr>;
              s1 = s\<lparr>registeredNodes := (registeredNodes s)[i := node]\<rparr>
          in if nodeDataCallback s1 then emit (NodeDataCallback (data_nodeID pkt) pkt) s1
             else s1)"

definition handleHeartbeat :: "LoRaManager \<Rightarrow> HeartbeatPacket_t \<Rightarrow> u32 \<Rightarrow> LoRaManager" where
  "handleHeartbeat s pkt now =
     (case getNodeByID (registeredNodes s) (hb_nodeID pkt) of
        None \<Rightarrow> s
      | Some i \<Rightarrow>
          let node = (registeredNodes s ! i)
                       \<lparr>relayStatus := hb_relayStatus pkt, lastSeen := now, online := True\<rparr>
          in s\<lparr>registeredNodes := (registeredNodes s)[i := node]\<rparr>)"

subsection \<open>Packet dispatch and the update tick\<close>

text \<open>\<open>_handlePacket(data, len)\<close> with \<open>len = length d\<close>; a Hello is handled with the
  fixed \<open>rssi = -50\<close>, \<open>snr = 10\<close> of the source.\<close>

definition handlePacket :: "LoRaManager \<Rightarrow> u8 list \<Rightarrow> u32 \<Rightarrow> LoRaManager" where
  "handlePacket s d now =
     (if length d < 1 then s
      else let pktType = d ! 0 in
        if pktType = PKG_HELLO then
          (if length d \<ge> sizeof_HelloPacket_t then handleHello s (asHello d) (- 50) 10 now else s)
        else if pktType = PKG_ACK then
          (if length d \<ge> sizeof_AckPacket_t then handleAck s (asAck d) now else s)
        else if pktType = PKG_DATA then
          (if length d \<ge> sizeof_DataPacket_t then handleData s (asData d) now else s)
        else if pktType = PKG_HEARTBEAT then
          (if length d \<ge> sizeof_HeartbeatPacket_t then handleHeartbeat s (asHeartbeat d) now
           else s)
        else s)"

text \<open>The pairing timeout of \<open>update\<close> (the block under "Check pairing timeout").\<close>

definition checkPairingTimeout :: "LoRaManager \<Rightarrow> u32 \<Rightarrow> LoRaManager" where
  "checkPairingTimeout s now =
     (if pairingState s = PAIR_WAITING_ACK then
        (if now - pairingStartTime s \<ge> LORA_PAIRING_TIMEOUT then
           let s1 = s\<lparr>pairingState := PAIR_TIMEOUT\<rparr>;
               s2 = (if pairingCallback s1 then emit (PairingCallback (pairingNodeID s1) False) s1
                     else s1)
           in s2\<lparr>pairingState := PAIR_IDLE\<rparr>
         else s)
      else s)"

text \<open>
  One call of \<open>update\<close> at clock value \<open>now\<close>. \<open>rx\<close> is the list of payloads that
  \<open>_processRxData\<close> decodes from the serial input of this tick and passes, in order of
  arrival, to \<open>_handlePacket\<close>. The clock does not advance inside a tick.
\<close>

definition update :: "LoRaManager \<Rightarrow> u32 \<Rightarrow> u8 list list \<Rightarrow> LoRaManager" where
  "update s now rx =
     (if \<not> initialized s then s
      else let s1 = foldl (\<lambda>t d. handlePacket t d now) s rx;
               s2 = (if scanMode s1 \<and> now - scanStartTime s1 \<ge> scanDuration s1
                     then stopScan s1 else s1);
               s3 = checkPairingTimeout s2 now
           in if now - lastNodeCheck s3 \<ge> 5000
              then updateNodeOnlineStatus (s3\<lparr>lastNodeCheck := now\<rparr>) now
              else s3)"

text \<open>\<open>millis()\<close> after \<open>t\<close> milliseconds of running time.\<close>

definition millis :: "nat \<Rightarrow> u32" where
  "millis t = word_of_nat t"

subsection \<open>Sequences of calls\<close>

datatype call =
    StartPairing mac u32 bool
  | RemoveNode u8
  | CancelPairing
  | StartScan u32 u32
  | StopScan
  | HandlePacket "u8 list" u32
  | Update u32 "u8 list list"
  | SaveNodesCall
  | OnPairingComplete
  | OnNodeDiscovered
  | OnNodeData

fun perform :: "LoRaManager \<Rightarrow> call \<Rightarrow> LoRaManager" where
  "perform s (StartPairing m now txOk) = snd (startPairing s m now txOk)"
| "perform s (RemoveNode k) = snd (removeNode s k)"
| "perform s CancelPairing = cancelPairing s"
| "perform s (StartScan duration now) = startScan s duration now"
| "perform s StopScan = stopScan s"
| "perform s (HandlePacket d now) = handlePacket s d now"
| "perform s (Update now rx) = update s now rx"
| "perform s SaveNodesCall = snd (saveNodes s)"
| "perform s OnPairingComplete = onPairingComplete s"
| "perform s OnNodeDiscovered = onNodeDiscovered s"
| "perform s OnNodeData = onNodeData s"

definition run :: "LoRaManager \<Rightarrow> call list \<Rightarrow> LoRaManager" where
  "run s calls = foldl perform s calls"

subsection \<open>Predicates used in the statements\<close>

definition isUpperHexDigit :: "char \<Rightarrow> bool" where
  "isUpperHexDigit c = (c \<in> set ''0123456789ABCDEF'')"

text \<open>The printable form \<open>XX:XX:XX:XX:XX:XX\<close>: 17 characters, a colon at every third
  position, an upper-case hexadecimal digit everywhere else.\<close>

definition isMacFormat :: "string \<Rightarrow> bool" where
  "isMacFormat str =
     (length str = 17 \<and>
      list_all (\<lambda>i. if i mod 3 = 2 then str ! i = CHR '':'' else isUpperHexDigit (str ! i))
               [0..<17])"

text \<open>ID \<open>k\<close> is held by a valid registered node.\<close>

definition idInUse :: "RegisteredNode list \<Rightarrow> u8 \<Rightarrow> bool" where
  "idInUse regs k = list_ex (\<lambda>node. valid node \<and> nodeID node = k) regs"

text \<open>Sample data for the concrete instances below: the MAC \<open>00:00:00:00:00:i\<close> and a
  registered node with ID \<open>i\<close> and that MAC.\<close>

definition testMAC :: "nat \<Rightarrow> mac" where
  "testMAC i = MAC 0 0 0 0 0 (of_nat i)"

definition testNode :: "nat \<Rightarrow> RegisteredNode" where
  "testNode i = \<lparr> nodeID = of_nat i, macAddr = testMAC i, deviceType = DEV_TYPE_RELAY_2CH,
                  name = nodeName (of_nat i), relayStatus = 0, lastRSSI = 0, lastSNR = 0,
                  uptime = 0, lastSeen = 0, online = True, valid = True \<rparr>"

text \<open>The uniqueness invariants of the registry, over its valid entries.\<close>

definition uniqueIDs :: "RegisteredNode list \<Rightarrow> bool" where
  "uniqueIDs regs = distinct (map nodeID (filter valid regs))"

definition uniqueMACs :: "RegisteredNode list \<Rightarrow> bool" where
  "uniqueMACs regs = distinct (map macAddr (filter valid regs))"

text \<open>While a session waits for its Ack, neither its assigned ID nor its target MAC is
  held by a valid registered node.\<close>

definition sessionFresh :: "LoRaManager \<Rightarrow> bool" where
  "sessionFresh s =
     (pairingState s = PAIR_WAITING_ACK \<longrightarrow>
        \<not> idInUse (registeredNodes s) (pairingNodeID s) \<and>
        \<not> isNodeRegistered (registeredNodes s) (pairingMAC s))"

definition registryInv :: "LoRaManager \<Rightarrow> bool" where
  "registryInv s =
     (uniqueIDs (registeredNodes s) \<and> uniqueMACs (registeredNodes s) \<and> sessionFresh s)"

text \<open>What the invariant looks at: IDs and MACs of the valid entries, and the session.\<close>

definition registryView ::
  "LoRaManager \<Rightarrow> u8 list \<times> mac list \<times> PairingState_t \<times> u8 \<times> mac" where
  "registryView s =
     (map nodeID (filter valid (registeredNodes s)),
      map macAddr (filter valid (registeredNodes s)),
      pairingState s, pairingNodeID s, pairingMAC s)"

text \<open>Scenarios A and B of the specification up to the Welcome: callbacks registered, a
  scan started, a Hello from \<open>AA:BB:CC:11:22:33\<close> (device type 2) received, and pairing
  with that MAC started.\<close>

definition scenarioMAC :: mac where
  "scenarioMAC = MAC 0xAA 0xBB 0xCC 0x11 0x22 0x33"

definition scenarioB :: LoRaManager where
  "scenarioB =
     run ((LoRaManager_new NoFile True)\<lparr>initialized := True\<rparr>)
       [OnPairingComplete, OnNodeDiscovered, StartScan 60000 0,
        HandlePacket ([PKG_HELLO] @ macBytes scenarioMAC @ [2, 1]) 5,
        StartPairing scenarioMAC 100 True]"

text \<open>Further sample states: a manager that has just started a scan; one whose scan has
  accepted 16 Hellos; and scenario B completed by the Ack, with a new scan started.\<close>

definition scanningState :: LoRaManager where
  "scanningState =
     run ((LoRaManager_new NoFile True)\<lparr>initialized := True\<rparr>)
       [OnNodeDiscovered, StartScan 60000 0]"

definition helloFrom :: "mac \<Rightarrow> HelloPacket_t" where
  "helloFrom m = \<lparr>hello_type = PKG_HELLO, hello_macAddr = m, hello_deviceType = 2,
                   hello_fwVersion = 1\<rparr>"

definition fullScanState :: LoRaManager where
  "fullScanState =
     run scanningState
       (map (\<lambda>i. HandlePacket ([PKG_HELLO] @ macBytes (testMAC i) @ [1, 1]) 0) [1..<17])"

definition pairedState :: LoRaManager where
  "pairedState =
     run scenarioB [HandlePacket [PKG_ACK, 1, PKG_WELCOME, ERR_NONE] 200, StartScan 60000 300]"

text \<open>The calls of the pairing callback in a trace, and payloads whose type byte is
  \<open>PKG_ACK\<close>.\<close>

definition pairingCallbacks :: "event list \<Rightarrow> (u8 \<times> bool) list" where
  "pairingCallbacks es =
     concat (map (\<lambda>e. case e of PairingCallback k ok \<Rightarrow> [(k, ok)] | _ \<Rightarrow> []) es)"

definition isAck :: "u8 list \<Rightarrow> bool" where
  "isAck d = (length d \<ge> 1 \<and> d ! 0 = PKG_ACK)"

text \<open>The part of the manager that the pairing session consists of.\<close>

definition sessionView ::
  "LoRaManager \<Rightarrow> PairingState_t \<times> mac \<times> u8 \<times> u32 \<times> bool \<times> (u8 \<times> bool) list \<times> bool" where
  "sessionView s =
     (pairingState s, pairingMAC s, pairingNodeID s, pairingStartTime s, pairingCallback s,
      pairingCallbacks (events s), initialized s)"

text \<open>Pairing the MACs \<open>testMAC 1\<close>, ..., \<open>testMAC n\<close> one after the other, each
  completed by its Ack, all at clock value 0.\<close>

definition pairCycle :: "nat \<Rightarrow> call list" where
  "pairCycle i = [StartPairing (testMAC i) 0 True,
                  HandlePacket [PKG_ACK, of_nat i, PKG_WELCOME, ERR_NONE] 0]"

definition pairMany :: "nat \<Rightarrow> call list" where
  "pairMany n = concat (map pairCycle [1..<Suc n])"

definition bootedState :: LoRaManager where
  "bootedState = (LoRaManager_new NoFile True)\<lparr>initialized := True\<rparr>"

text \<open>The state reached after the first \<open>n\<close> of these pairings, as far as pairing looks
  at it.\<close>

definition filledTo :: "nat \<Rightarrow> LoRaManager \<Rightarrow> bool" where
  "filledTo n s =
     (registeredNodes s = map testNode [1..<Suc n] \<and> pairingState s = PAIR_IDLE \<and>
      pairingNodeID s = of_nat n \<and> discoveredNodes s = [] \<and> initialized s)"

text \<open>Scenario E of the specification: a nodes file with two records, the second one
  with lower-case digits in its MAC and without a name.\<close>

definition scenarioE_records :: "json_node list" where
  "scenarioE_records =
     [\<lparr>j_id = 3, j_mac = ''AA:BB:CC:11:22:33'', j_type = 1, j_name = Some ''Pump''\<rparr>,
      \<lparr>j_id = 4, j_mac = ''00:1a:2B:3c:4D:5e'', j_type = 2, j_name = None\<rparr>]"

text \<open>
  Two managers that are equal in every member except possibly \<open>_pairingNodeID\<close>, and in
  that one too while a session waits for its Ack. Outside WaitingAck the member is read
  by nothing: it has no accessor, and \<open>startPairing\<close> assigns it before using it.
\<close>

definition sameUpToIdleID :: "LoRaManager \<Rightarrow> LoRaManager \<Rightarrow> bool" where
  "sameUpToIdleID s t =
     (t = s \<or> (pairingState s \<noteq> PAIR_WAITING_ACK \<and> t = s\<lparr>pairingNodeID := pairingNodeID t\<rparr>))"

text \<open>A nodes file that parses, with a second record whose MAC string is no MAC.\<close>

definition badMacRecords :: "json_node list" where
  "badMacRecords =
     [\<lparr>j_id = 3, j_mac = ''AA:BB:CC:11:22:33'', j_type = 1, j_name = Some ''Pump''\<rparr>,
      \<lparr>j_id = 4, j_mac = ''not a MAC address'', j_type = 2, j_name = Some ''Fan''\<rparr>]"

section \<open>Properties\<close>

subsection \<open>MAC formatting\<close>

lemma unat_u8_lt: "unat (b :: u8) < 256"
  using unsigned_less [of b, where ?'a = nat] by simp

lemma hexDigit_facts:
  "\<forall>d<16. hexDigitValue (hexDigitUpper d) = Some d \<and> \<not> isspace (hexDigitUpper d)
      \<and> hexDigitUpper d \<noteq> CHR ''-'' \<and> hexDigitUpper d \<noteq> CHR ''+''
      \<and> hexDigitUpper d \<noteq> CHR ''x'' \<and> hexDigitUpper d \<noteq> CHR ''X''
      \<and> isUpperHexDigit (hexDigitUpper d)"
  by (simp add: hexDigitUpper_def hexDigitValue_def isspace_def isUpperHexDigit_def
      numeral_eq_Suc All_less_Suc)

lemma hexDigitValue_colon: "hexDigitValue (CHR '':'') = None"
  by (simp add: hexDigitValue_def)

lemma hexUpper_small: "n < 16 \<Longrightarrow> hexUpper n = [hexDigitUpper n]"
  by (simp add: hexUpper.simps)

lemma fmt02X_eq: "fmt02X b = [hexDigitUpper (unat b div 16), hexDigitUpper (unat b mod 16)]"
proof (cases "unat b < 16")
  case True
  then show ?thesis
    by (simp add: fmt02X_def hexUpper_small hexDigitUpper_def)
next
  case False
  have "unat b div 16 < 16" using unat_u8_lt [of b] by simp
  then have "hexUpper (unat b) = [hexDigitUpper (unat b div 16), hexDigitUpper (unat b mod 16)]"
    using False by (subst hexUpper.simps) (simp add: hexUpper_small)
  then show ?thesis by (simp add: fmt02X_def)
qed

lemma scanf_x_pair:
  assumes h: "h < 16" and l: "l < 16" and r: "r = [] \<or> hd r = CHR '':''"
  shows "scanf_x (hexDigitUpper h # hexDigitUpper l # r) = Some (word_of_nat (16 * h + l), r)"
proof -
  note fh = hexDigit_facts [rule_format, OF h]
  note fl = hexDigit_facts [rule_format, OF l]
  have bound: "16 * h + l \<le> 2 ^ 32 - 1" using h l by simp
  have rest: "scanHexDigits (16 * h + l) r = (16 * h + l, r)"
    using r by (cases r) (auto simp: hexDigitValue_colon)
  have skip: "skipHexPrefix (hexDigitUpper h # hexDigitUpper l # r)
                = hexDigitUpper h # hexDigitUpper l # r"
    using fl by (cases r) (auto simp: skipHexPrefix_def)
  show ?thesis
    using fh fl bound rest skip
    by (simp add: scanf_x_def skipSign_def min_def)
qed

lemma scanf_x_fmt:
  assumes r: "r = [] \<or> hd r = CHR '':''"
  shows "scanf_x (fmt02X b @ r) = Some (ucast b, r)"
proof -
  have "scanf_x (fmt02X b @ r) = Some (word_of_nat (16 * (unat b div 16) + unat b mod 16), r)"
    unfolding fmt02X_eq using unat_u8_lt [of b] r
    by (simp add: scanf_x_pair del: of_nat_add of_nat_mult)
  then show ?thesis by (simp add: mult_div_mod_eq)
qed

lemma sscanf_macToString:
  "sscanf_hex_colon 6 (fmt02X m0 @ '':'' @ fmt02X m1 @ '':'' @ fmt02X m2 @ '':'' @
              fmt02X m3 @ '':'' @ fmt02X m4 @ '':'' @ fmt02X m5)
   = [ucast m0, ucast m1, ucast m2, ucast m3, ucast m4, ucast m5]"
proof -
  have six: "(6::nat) = Suc (Suc (Suc (Suc (Suc (Suc 0)))))" by simp
  have last: "scanf_x (fmt02X m5) = Some (ucast m5, [])"
    using scanf_x_fmt [of "[]" m5] by simp
  show ?thesis
    unfolding six by (simp add: scanf_x_fmt last)
qed

lemma macToString_eq:
  "macToString (MAC m0 m1 m2 m3 m4 m5) =
     fmt02X m0 @ '':'' @ fmt02X m1 @ '':'' @ fmt02X m2 @ '':'' @
     fmt02X m3 @ '':'' @ fmt02X m4 @ '':'' @ fmt02X m5"
  by (simp add: macToString_def fmt02X_eq)

lemma ucast_ucast_u8: "(ucast (ucast (b :: u8) :: u32) :: u8) = b"
  by (rule bit_word_eqI) (auto simp: bit_simps)

lemma stringToMAC_roundtrip: "stringToMAC (macToString x) m = (True, x)"
proof (cases x)
  case (MAC m0 m1 m2 m3 m4 m5)
  have len: "length (macToString x) = 17"
    unfolding MAC by (simp add: macToString_def fmt02X_eq)
  show ?thesis
    unfolding stringToMAC_def using len
    by (simp add: MAC macToString_eq sscanf_macToString ucast_ucast_u8 del: append.simps)
qed

lemma macToString_format: "isMacFormat (macToString x)"
proof (cases x)
  case (MAC m0 m1 m2 m3 m4 m5)
  have d: "isUpperHexDigit (hexDigitUpper (unat b div 16)) \<and>
           isUpperHexDigit (hexDigitUpper (unat b mod 16))" for b :: u8
  proof -
    have "unat b div 16 < 16" "unat b mod 16 < 16" using unat_u8_lt [of b] by simp_all
    then show ?thesis using hexDigit_facts by blast
  qed
  show ?thesis
    unfolding isMacFormat_def MAC macToString_def fmt02X_eq
    by (simp add: d upt_rec)
qed

text \<open>
  C8. For every six bytes \<open>x\<close>, \<open>stringToMAC\<close> applied to \<open>macToString x\<close> returns true
  and stores exactly \<open>x\<close>, whatever the output buffer held before; and \<open>macToString x\<close>
  always has the form \<open>XX:XX:XX:XX:XX:XX\<close> with upper-case hexadecimal digits.
\<close>

theorem C8_mac_roundtrip:
  "stringToMAC (macToString x) m = (True, x) \<and> isMacFormat (macToString x)"
  by (simp add: stringToMAC_roundtrip macToString_format)

subsection \<open>ID allocation\<close>

lemma usedIDs_foldl:
  "foldl (\<lambda>used node. if valid node then used(nodeID node := True) else used) u regs k
     = (u k \<or> idInUse regs k)"
  by (induction regs arbitrary: u) (auto simp: idInUse_def)

lemma usedIDs_iff: "usedIDs regs k = (k = 0 \<or> k = 255 \<or> idInUse regs k)"
  by (simp add: usedIDs_def usedIDs_foldl)

lemma u8_succ: "(i :: u8) < 255 \<Longrightarrow> unat (i + 1) = Suc (unat i)"
  by (simp add: word_less_nat_alt unat_word_ariths)

lemma u8_less_succ: "(i :: u8) < 255 \<Longrightarrow> (j < i + 1) = (j < i \<or> j = i)"
  by (auto simp: word_less_nat_alt u8_succ word_unat_eq_iff)

lemma u8_le_succ: "(i :: u8) < 255 \<Longrightarrow> (i + 1 \<le> j) = (i < j)"
  by (auto simp: word_less_nat_alt word_le_nat_alt u8_succ)

lemma firstFreeFrom_found:
  "i \<noteq> 0 \<Longrightarrow> firstFreeFrom used i \<noteq> 0 \<Longrightarrow>
     i \<le> firstFreeFrom used i \<and> firstFreeFrom used i < 255 \<and> \<not> used (firstFreeFrom used i)
     \<and> (\<forall>j. i \<le> j \<and> j < firstFreeFrom used i \<longrightarrow> used j)"
proof (induction used i rule: firstFreeFrom.induct)
  case (1 used i)
  show ?case
  proof (cases "i < 255 \<and> used i")
    case True
    then have eq: "firstFreeFrom used i = firstFreeFrom used (i + 1)"
      by (subst firstFreeFrom.simps) simp
    have nz: "i + 1 \<noteq> 0" using True by (auto simp: word_unat_eq_iff u8_succ)
    have ih: "i + 1 \<le> firstFreeFrom used (i + 1) \<and> firstFreeFrom used (i + 1) < 255
        \<and> \<not> used (firstFreeFrom used (i + 1))
        \<and> (\<forall>j. i + 1 \<le> j \<and> j < firstFreeFrom used (i + 1) \<longrightarrow> used j)"
      using "1.IH" True nz "1.prems" eq by simp
    have lt: "i < firstFreeFrom used (i + 1)" using ih True by (simp add: u8_le_succ)
    show ?thesis
      unfolding eq using ih True lt
      by (auto simp: u8_le_succ order.strict_iff_order)
  next
    case False
    have v: "firstFreeFrom used i = (if i < 255 then i else 0)"
      using False by (subst firstFreeFrom.simps) simp
    show ?thesis using "1.prems" False unfolding v by (auto split: if_splits)
  qed
qed

lemma firstFreeFrom_none:
  "i \<noteq> 0 \<Longrightarrow> firstFreeFrom used i = 0 \<Longrightarrow> i \<le> j \<Longrightarrow> j < 255 \<Longrightarrow> used j"
proof (induction used i rule: firstFreeFrom.induct)
  case (1 used i)
  have i255: "i < 255" using "1.prems" by simp
  have ui: "used i" using "1.prems"(1,2) i255 by (subst (asm) firstFreeFrom.simps) (auto split: if_splits)
  have eq: "firstFreeFrom used (i + 1) = 0"
    using "1.prems"(2) i255 ui by (subst (asm) firstFreeFrom.simps) simp
  have nz: "i + 1 \<noteq> 0" using i255 by (auto simp: word_unat_eq_iff u8_succ)
  show ?case
  proof (cases "j = i")
    case True then show ?thesis using ui by simp
  next
    case False
    then have "i + 1 \<le> j" using "1.prems"(3) i255 by (simp add: u8_le_succ)
    then show ?thesis using "1.IH" i255 ui nz eq "1.prems"(4) by simp
  qed
qed

lemma getNextFreeID_found:
  assumes "getNextFreeID regs \<noteq> 0"
  shows "1 \<le> getNextFreeID regs \<and> getNextFreeID regs \<le> 254
         \<and> \<not> idInUse regs (getNextFreeID regs)
         \<and> (\<forall>j. 1 \<le> j \<and> j < getNextFreeID regs \<longrightarrow> idInUse regs j)"
proof -
  let ?r = "getNextFreeID regs"
  have f: "1 \<le> ?r \<and> ?r < 255 \<and> \<not> usedIDs regs ?r
        \<and> (\<forall>j. 1 \<le> j \<and> j < ?r \<longrightarrow> usedIDs regs j)"
    using firstFreeFrom_found [of 1 "usedIDs regs"] assms by (simp add: getNextFreeID_def)
  have le: "?r \<le> 254" using f by (simp add: word_less_nat_alt word_le_nat_alt)
  have below: "idInUse regs j" if "1 \<le> j" "j < ?r" for j
  proof -
    have "usedIDs regs j" using f that by blast
    moreover have "j \<noteq> 0" using that(1) by (auto simp: word_le_nat_alt)
    moreover have "j \<noteq> 255" using that(2) f by auto
    ultimately show ?thesis by (simp add: usedIDs_iff)
  qed
  show ?thesis using f le below by (simp add: usedIDs_iff)
qed

lemma getNextFreeID_zero_iff:
  "(getNextFreeID regs = 0) = (\<forall>j. 1 \<le> j \<and> j \<le> 254 \<longrightarrow> idInUse regs j)"
proof
  assume z: "getNextFreeID regs = 0"
  show "\<forall>j. 1 \<le> j \<and> j \<le> 254 \<longrightarrow> idInUse regs j"
  proof (intro allI impI)
    fix j :: u8 assume j: "1 \<le> j \<and> j \<le> 254"
    then have j255: "j < 255" by (simp add: word_less_nat_alt word_le_nat_alt)
    have "usedIDs regs j"
      using firstFreeFrom_none [of 1 "usedIDs regs" j] z j j255 by (simp add: getNextFreeID_def)
    moreover have "j \<noteq> 0" using j by (auto simp: word_le_nat_alt)
    moreover have "j \<noteq> 255" using j255 by auto
    ultimately show "idInUse regs j" by (simp add: usedIDs_iff)
  qed
next
  assume a: "\<forall>j. 1 \<le> j \<and> j \<le> 254 \<longrightarrow> idInUse regs j"
  show "getNextFreeID regs = 0"
  proof (rule ccontr)
    assume "getNextFreeID regs \<noteq> 0"
    from getNextFreeID_found [OF this] a show False by blast
  qed
qed

lemma getNextFreeID_not_255: "getNextFreeID regs \<noteq> 255"
proof (cases "getNextFreeID regs = 0")
  case True then show ?thesis by simp
next
  case False
  from getNextFreeID_found [OF this] show ?thesis by (auto simp: word_le_nat_alt)
qed

lemma eraseFirstID_set:
  "eraseFirstID regs k = Some regs' \<Longrightarrow> set regs' \<subseteq> set regs"
  by (induction regs arbitrary: regs') (auto split: if_splits)

lemma eraseFirstID_gone:
  "eraseFirstID regs k = Some regs' \<Longrightarrow> distinct (map nodeID regs) \<Longrightarrow> k \<notin> nodeID ` set regs'"
proof (induction regs arbitrary: regs')
  case Nil then show ?case by simp
next
  case (Cons n regs)
  show ?case
  proof (cases "nodeID n = k")
    case True
    then show ?thesis using Cons.prems by auto
  next
    case False
    then obtain r where r: "eraseFirstID regs k = Some r" "regs' = n # r"
      using Cons.prems(1) by auto
    then show ?thesis using Cons.IH [OF r(1)] Cons.prems(2) False by auto
  qed
qed

lemma saveNodes_registered [simp]: "registeredNodes (snd (saveNodes s)) = registeredNodes s"
  by (simp add: saveNodes_def emit_def Let_def)

lemma removeNode_True:
  "removeNode s k = (True, s') \<Longrightarrow> eraseFirstID (registeredNodes s) k = Some (registeredNodes s')"
  by (auto simp: removeNode_def split: option.splits)

lemma reuse_after_remove:
  assumes rm: "removeNode s k = (True, s')" and d: "distinct (map nodeID (registeredNodes s))"
    and k: "1 \<le> k \<and> k \<le> 254"
  shows "\<not> idInUse (registeredNodes s') k \<and> getNextFreeID (registeredNodes s') \<noteq> 0
     \<and> getNextFreeID (registeredNodes s') \<le> k
     \<and> ((\<forall>j. 1 \<le> j \<and> j < k \<longrightarrow> idInUse (registeredNodes s') j)
            \<longrightarrow> getNextFreeID (registeredNodes s') = k)"
proof -
  let ?regs = "registeredNodes s'"
  let ?r = "getNextFreeID ?regs"
  have free: "\<not> idInUse ?regs k"
    using eraseFirstID_gone [OF removeNode_True [OF rm] d]
    by (auto simp: idInUse_def list_ex_iff)
  have nz: "?r \<noteq> 0" using free k by (auto simp: getNextFreeID_zero_iff)
  note f = getNextFreeID_found [OF nz]
  have le: "?r \<le> k"
  proof (rule ccontr)
    assume "\<not> ?r \<le> k"
    then have "k < ?r" by simp
    then show False using f k free by blast
  qed
  have eq: "?r = k" if a: "\<forall>j. 1 \<le> j \<and> j < k \<longrightarrow> idInUse ?regs j"
  proof (rule ccontr)
    assume "?r \<noteq> k"
    then have "?r < k" using le by simp
    then show False using a f by blast
  qed
  show ?thesis using free nz le eq by blast
qed

text \<open>
  C7. \<open>_getNextFreeID\<close> never returns 255; a result other than 0 lies in 1..254, is held
  by no valid registered node, and every smaller ID from 1 on is held; the result is the
  sentinel 0 exactly when every ID in 1..254 is held. After \<open>removeNode k\<close> on a registry
  with pairwise different IDs, \<open>k\<close> is free again: the next allocation succeeds with an ID
  not above \<open>k\<close>, and with \<open>k\<close> itself when all smaller IDs are held.
\<close>

theorem C7_getNextFreeID:
  "getNextFreeID regs \<noteq> 255 \<and>
   (getNextFreeID regs \<noteq> 0 \<longrightarrow>
      1 \<le> getNextFreeID regs \<and> getNextFreeID regs \<le> 254
      \<and> \<not> idInUse regs (getNextFreeID regs)
      \<and> (\<forall>j. 1 \<le> j \<and> j < getNextFreeID regs \<longrightarrow> idInUse regs j)) \<and>
   ((getNextFreeID regs = 0) = (\<forall>j. 1 \<le> j \<and> j \<le> 254 \<longrightarrow> idInUse regs j)) \<and>
   (removeNode s k = (True, s') \<and> distinct (map nodeID (registeredNodes s))
      \<and> 1 \<le> k \<and> k \<le> 254 \<longrightarrow>
      \<not> idInUse (registeredNodes s') k \<and> getNextFreeID (registeredNodes s') \<noteq> 0
      \<and> getNextFreeID (registeredNodes s') \<le> k
      \<and> ((\<forall>j. 1 \<le> j \<and> j < k \<longrightarrow> idInUse (registeredNodes s') j)
            \<longrightarrow> getNextFreeID (registeredNodes s') = k))"
  using getNextFreeID_not_255 [of regs] getNextFreeID_found [of regs]
    getNextFreeID_zero_iff [of regs] reuse_after_remove [of s k s']
  by blast

theorem C7_getNextFreeID_witness:
  "getNextFreeID (map testNode [1, 2, 3]) = 4 \<and>
   removeNode ((LoRaManager_new NoFile True)\<lparr>registeredNodes := map testNode [1, 2, 3]\<rparr>) 2
     = (True, (LoRaManager_new NoFile True)
                \<lparr>registeredNodes := map testNode [1, 3], events := [SaveNodes True],
                 nodesFile := Parsed (map toJson (map testNode [1, 3]))\<rparr>) \<and>
   getNextFreeID (map testNode [1, 3]) = 2"
proof -
  let ?s = "(LoRaManager_new NoFile True)\<lparr>registeredNodes := map testNode [1, 2, 3]\<rparr>"
  let ?s' = "(LoRaManager_new NoFile True)
                \<lparr>registeredNodes := map testNode [1, 3], events := [SaveNodes True],
                 nodesFile := Parsed (map toJson (map testNode [1, 3]))\<rparr>"
  have n4: "getNextFreeID (map testNode [1, 2, 3]) = 4" by code_simp
  have rm: "removeNode ?s 2 = (True, ?s')"
    by (simp add: removeNode_def saveNodes_def emit_def LoRaManager_new_def testNode_def)
  have d: "distinct (map nodeID (registeredNodes ?s))"
    by (simp add: testNode_def)
  have u: "\<forall>j::u8. 1 \<le> j \<and> j < 2 \<longrightarrow> idInUse (registeredNodes ?s') j"
  proof (intro allI impI)
    fix j :: u8 assume "1 \<le> j \<and> j < 2"
    then have "j = 1" by (auto simp: word_le_nat_alt word_less_nat_alt word_unat_eq_iff)
    then show "idInUse (registeredNodes ?s') j" by (simp add: idInUse_def testNode_def)
  qed
  have "getNextFreeID (registeredNodes ?s') = 2"
    using C7_getNextFreeID [of "map testNode [1, 2, 3]" ?s 2 ?s'] rm d u by simp
  then show ?thesis using n4 rm by simp
qed

subsection \<open>Uniqueness of IDs and MACs\<close>

lemma idInUse_iff: "idInUse regs k = (k \<in> set (map nodeID (filter valid regs)))"
  by (auto simp: idInUse_def list_ex_iff)

lemma isNodeRegistered_iff:
  "isNodeRegistered regs m = (m \<in> set (map macAddr (filter valid regs)))"
  by (induction regs) auto

lemma registryInv_view:
  "registryInv s =
     (case registryView s of (ids, macs, st, k, m) \<Rightarrow>
        distinct ids \<and> distinct macs \<and> (st = PAIR_WAITING_ACK \<longrightarrow> k \<notin> set ids \<and> m \<notin> set macs))"
  by (simp add: registryInv_def registryView_def uniqueIDs_def uniqueMACs_def sessionFresh_def
      idInUse_iff isNodeRegistered_iff)

lemma view_inv: "registryView s' = registryView s \<Longrightarrow> registryInv s \<Longrightarrow> registryInv s'"
  by (simp add: registryInv_view)

lemma list_update_keys:
  "i < length regs \<Longrightarrow> valid n' = valid (regs ! i) \<Longrightarrow> f n' = f (regs ! i) \<Longrightarrow>
     map f (filter valid (regs[i := n'])) = map f (filter valid regs)"
proof (induction regs arbitrary: i)
  case Nil then show ?case by simp
next
  case (Cons a regs)
  then show ?case by (cases i) auto
qed

lemma getNodeByID_Some: "getNodeByID regs k = Some i \<Longrightarrow> i < length regs"
  by (induction regs arbitrary: i) (auto split: if_splits)

lemma emit_view [simp]: "registryView (emit e s) = registryView s"
  by (simp add: registryView_def emit_def)

lemma saveNodes_view [simp]: "registryView (snd (saveNodes s)) = registryView s"
  by (simp add: saveNodes_def registryView_def emit_def Let_def)

lemma handleHello_view [simp]: "registryView (handleHello s pkt rssi snr now) = registryView s"
  by (simp add: handleHello_def addDiscoveredNode_def Let_def registryView_def emit_def)

lemma handleData_view [simp]: "registryView (handleData s pkt now) = registryView s"
proof (cases "getNodeByID (registeredNodes s) (data_nodeID pkt)")
  case None
  then show ?thesis by (simp add: handleData_def)
next
  case (Some i)
  note lt = getNodeByID_Some [OF Some]
  show ?thesis
    using lt Some
    by (simp add: handleData_def Let_def registryView_def emit_def list_update_keys)
qed

lemma handleHeartbeat_view [simp]: "registryView (handleHeartbeat s pkt now) = registryView s"
proof (cases "getNodeByID (registeredNodes s) (hb_nodeID pkt)")
  case None
  then show ?thesis by (simp add: handleHeartbeat_def)
next
  case (Some i)
  note lt = getNodeByID_Some [OF Some]
  show ?thesis
    using lt Some
    by (simp add: handleHeartbeat_def Let_def registryView_def list_update_keys)
qed

lemma stopScan_view [simp]: "registryView (stopScan s) = registryView s"
  by (simp add: stopScan_def registryView_def)

lemma startScan_view [simp]: "registryView (startScan s d now) = registryView s"
  by (simp add: startScan_def clearDiscoveredNodes_def registryView_def)

lemma map_keys:
  "(\<And>n. valid (g n) = valid n \<and> f (g n) = f n) \<Longrightarrow>
     map f (filter valid (map g regs)) = map f (filter valid regs)"
  by (induction regs) auto

lemma updateNodeOnlineStatus_view [simp]:
  "registryView (updateNodeOnlineStatus s now) = registryView s"
  by (simp add: updateNodeOnlineStatus_def registryView_def map_keys)

lemma lastNodeCheck_view [simp]: "registryView (s\<lparr>lastNodeCheck := t\<rparr>) = registryView s"
  by (simp add: registryView_def)

lemma callbacks_view [simp]:
  "registryView (onPairingComplete s) = registryView s"
  "registryView (onNodeDiscovered s) = registryView s"
  "registryView (onNodeData s) = registryView s"
  by (simp_all add: registryView_def onPairingComplete_def onNodeDiscovered_def onNodeData_def)

lemma handleAck_inv: "registryInv s \<Longrightarrow> registryInv (handleAck s pkt now)"
proof -
  assume inv: "registryInv s"
  show ?thesis
  proof (cases "pairingState s = PAIR_WAITING_ACK \<and> ack_ackType pkt = PKG_WELCOME")
    case False
    then have "handleAck s pkt now = s" by (auto simp: handleAck_def)
    then show ?thesis using inv by simp
  next
    case True
    show ?thesis
    proof (cases "ack_status pkt = ERR_NONE")
      case ok: True
      let ?s1 = "s\<lparr>registeredNodes := registeredNodes s @ [newRegisteredNode s now]\<rparr>"
      have v: "registryView (handleAck s pkt now) =
            (map nodeID (filter valid (registeredNodes s)) @ [pairingNodeID s],
             map macAddr (filter valid (registeredNodes s)) @ [pairingMAC s],
             PAIR_IDLE, pairingNodeID s, pairingMAC s)"
        using True ok
        by (simp add: handleAck_def Let_def registryView_def saveNodes_def emit_def
            newRegisteredNode_def)
      show ?thesis using inv True unfolding registryInv_view v
        by (simp add: registryView_def)
    next
      case bad: False
      have v: "registryView (handleAck s pkt now) =
            (map nodeID (filter valid (registeredNodes s)),
             map macAddr (filter valid (registeredNodes s)),
             PAIR_IDLE, pairingNodeID s, pairingMAC s)"
        using True bad
        by (simp add: handleAck_def Let_def registryView_def emit_def)
      show ?thesis using inv unfolding registryInv_view v
        by (simp add: registryView_def)
    qed
  qed
qed

lemma handlePacket_inv: "registryInv s \<Longrightarrow> registryInv (handlePacket s d now)"
  by (auto simp: handlePacket_def Let_def handleAck_inv intro: view_inv)

lemma foldl_handlePacket_inv:
  "registryInv s \<Longrightarrow> registryInv (foldl (\<lambda>t d. handlePacket t d now) s rx)"
  by (induction rx arbitrary: s) (simp_all add: handlePacket_inv)

lemma checkPairingTimeout_inv: "registryInv s \<Longrightarrow> registryInv (checkPairingTimeout s now)"
proof -
  assume inv: "registryInv s"
  have "registryView (checkPairingTimeout s now) = registryView s \<or>
        registryView (checkPairingTimeout s now) =
            (map nodeID (filter valid (registeredNodes s)),
             map macAddr (filter valid (registeredNodes s)),
             PAIR_IDLE, pairingNodeID s, pairingMAC s)"
    by (simp add: checkPairingTimeout_def Let_def registryView_def emit_def)
  then show ?thesis
  proof
    assume "registryView (checkPairingTimeout s now) = registryView s"
    then show ?thesis using inv by (rule view_inv)
  next
    assume v: "registryView (checkPairingTimeout s now) =
            (map nodeID (filter valid (registeredNodes s)),
             map macAddr (filter valid (registeredNodes s)),
             PAIR_IDLE, pairingNodeID s, pairingMAC s)"
    show ?thesis using inv unfolding registryInv_view v by (simp add: registryView_def)
  qed
qed

lemma update_inv: "registryInv s \<Longrightarrow> registryInv (update s now rx)"
proof -
  assume inv: "registryInv s"
  let ?s1 = "foldl (\<lambda>t d. handlePacket t d now) s rx"
  let ?s2 = "if scanMode ?s1 \<and> now - scanStartTime ?s1 \<ge> scanDuration ?s1
             then stopScan ?s1 else ?s1"
  let ?s3 = "checkPairingTimeout ?s2 now"
  have 1: "registryInv ?s1" using inv by (rule foldl_handlePacket_inv)
  have 2: "registryInv ?s2" using 1 by (auto intro: view_inv)
  have 3: "registryInv ?s3" using 2 by (rule checkPairingTimeout_inv)
  have 4: "registryInv (updateNodeOnlineStatus (?s3\<lparr>lastNodeCheck := now\<rparr>) now)"
    using 3 by (auto intro: view_inv)
  show ?thesis
    using inv 3 4 by (simp add: update_def Let_def)
qed

lemma cancelPairing_inv: "registryInv s \<Longrightarrow> registryInv (cancelPairing s)"
  unfolding registryInv_view by (simp add: registryView_def cancelPairing_def)

lemma eraseFirstID_filter:
  "eraseFirstID regs k = Some regs' \<Longrightarrow>
     distinct (map f (filter valid regs)) \<Longrightarrow>
     distinct (map f (filter valid regs')) \<and>
     set (map f (filter valid regs')) \<subseteq> set (map f (filter valid regs))"
proof (induction regs arbitrary: regs')
  case Nil then show ?case by simp
next
  case (Cons n regs)
  show ?case
  proof (cases "nodeID n = k")
    case True
    then show ?thesis using Cons.prems by (auto split: if_splits)
  next
    case False
    then obtain r where r: "eraseFirstID regs k = Some r" "regs' = n # r"
      using Cons.prems(1) by auto
    have d: "distinct (map f (filter valid regs))" using Cons.prems(2) by (auto split: if_splits)
    from Cons.IH [OF r(1) d] show ?thesis using Cons.prems(2) r(2) by (auto split: if_splits)
  qed
qed

lemma removeNode_inv: "registryInv s \<Longrightarrow> registryInv (snd (removeNode s k))"
proof -
  assume inv: "registryInv s"
  show ?thesis
  proof (cases "eraseFirstID (registeredNodes s) k")
    case None
    then show ?thesis using inv by (simp add: removeNode_def)
  next
    case (Some regs)
    have ids: "distinct (map nodeID (filter valid (registeredNodes s)))"
      and macs: "distinct (map macAddr (filter valid (registeredNodes s)))"
      using inv by (simp_all add: registryInv_def uniqueIDs_def uniqueMACs_def)
    note a = eraseFirstID_filter [OF Some ids]
    note b = eraseFirstID_filter [OF Some macs]
    have v: "registryView (snd (removeNode s k)) =
             (map nodeID (filter valid regs), map macAddr (filter valid regs),
              pairingState s, pairingNodeID s, pairingMAC s)"
      using Some by (simp add: removeNode_def) (simp add: registryView_def)
    show ?thesis using inv a b unfolding registryInv_view v
      by (auto simp: registryView_def)
  qed
qed

lemma sendWelcome_view [simp]: "registryView (snd (sendWelcome s m k txOk)) = registryView s"
  by (simp add: sendWelcome_def sendPacket_def)

lemma startPairing_inv: "registryInv s \<Longrightarrow> registryInv (snd (startPairing s m now txOk))"
proof -
  assume inv: "registryInv s"
  let ?r = "getNextFreeID (registeredNodes s)"
  show ?thesis
  proof (cases "pairingState s \<noteq> PAIR_IDLE \<or> isNodeRegistered (registeredNodes s) m")
    case True
    then have "snd (startPairing s m now txOk) = s" by (auto simp: startPairing_def)
    then show ?thesis using inv by simp
  next
    case False
    show ?thesis
    proof (cases "?r = 0")
      case True
      then have "snd (startPairing s m now txOk) = s\<lparr>pairingNodeID := 0\<rparr>"
        using False by (simp add: startPairing_def Let_def)
      then show ?thesis using inv False unfolding registryInv_view
        by (simp add: registryView_def)
    next
      case nz: False
      have free: "\<not> idInUse (registeredNodes s) ?r" using getNextFreeID_found [OF nz] by simp
      have v: "registryView (snd (startPairing s m now txOk)) =
             (map nodeID (filter valid (registeredNodes s)),
              map macAddr (filter valid (registeredNodes s)),
              PAIR_WAITING_ACK, ?r, m)"
        using False nz by (simp add: startPairing_def Let_def) (simp add: registryView_def)
      show ?thesis using inv False free unfolding registryInv_view v
        by (simp add: registryView_def idInUse_iff isNodeRegistered_iff)
    qed
  qed
qed

lemma perform_inv: "registryInv s \<Longrightarrow> registryInv (perform s c)"
  by (cases c)
     (auto simp: startPairing_inv removeNode_inv cancelPairing_inv handlePacket_inv update_inv
           intro: view_inv)

lemma run_inv: "registryInv s \<Longrightarrow> registryInv (run s calls)"
  unfolding run_def by (induction calls arbitrary: s) (simp_all add: perform_inv)

text \<open>
  C1. Starting from a manager whose registry is empty, after any sequence of calls
  (\<open>startPairing\<close>, incoming packets and so pairing completion by Ack, \<open>removeNode\<close>,
  and also \<open>cancelPairing\<close>, scan control, update ticks, \<open>saveNodes\<close> and callback
  registration), no two valid registered nodes share a node ID and no two share a MAC.
\<close>

theorem C1_unique_ids_and_macs:
  "registeredNodes s0 = [] \<Longrightarrow>
     uniqueIDs (registeredNodes (run s0 calls)) \<and> uniqueMACs (registeredNodes (run s0 calls))"
proof -
  assume e: "registeredNodes s0 = []"
  have "registryInv s0"
    by (simp add: registryInv_def uniqueIDs_def uniqueMACs_def sessionFresh_def e
        idInUse_def)
  then have "registryInv (run s0 calls)" by (rule run_inv)
  then show ?thesis by (simp add: registryInv_def)
qed

theorem C1_unique_ids_and_macs_witness:
  "registeredNodes ((LoRaManager_new NoFile True)\<lparr>initialized := True\<rparr>) = [] \<and>
   map nodeID (registeredNodes (run ((LoRaManager_new NoFile True)\<lparr>initialized := True\<rparr>)
          [StartPairing (testMAC 7) 0 True, HandlePacket [3, 1, 2, 0] 5,
           StartPairing (testMAC 8) 10 True, HandlePacket [3, 2, 2, 0] 15,
           RemoveNode 1,
           StartPairing (testMAC 7) 20 True, HandlePacket [3, 9, 2, 0] 25])) = [2, 1] \<and>
   uniqueIDs (registeredNodes (run ((LoRaManager_new NoFile True)\<lparr>initialized := True\<rparr>)
          [StartPairing (testMAC 7) 0 True, HandlePacket [3, 1, 2, 0] 5,
           StartPairing (testMAC 8) 10 True, HandlePacket [3, 2, 2, 0] 15,
           RemoveNode 1,
           StartPairing (testMAC 7) 20 True, HandlePacket [3, 9, 2, 0] 25])) \<and>
   uniqueMACs (registeredNodes (run ((LoRaManager_new NoFile True)\<lparr>initialized := True\<rparr>)
          [StartPairing (testMAC 7) 0 True, HandlePacket [3, 1, 2, 0] 5,
           StartPairing (testMAC 8) 10 True, HandlePacket [3, 2, 2, 0] 15,
           RemoveNode 1,
           StartPairing (testMAC 7) 20 True, HandlePacket [3, 9, 2, 0] 25]))"
proof -
  let ?s0 = "(LoRaManager_new NoFile True)\<lparr>initialized := True\<rparr>"
  let ?calls = "[StartPairing (testMAC 7) 0 True, HandlePacket [3, 1, 2, 0] 5,
           StartPairing (testMAC 8) 10 True, HandlePacket [3, 2, 2, 0] 15,
           RemoveNode 1,
           StartPairing (testMAC 7) 20 True, HandlePacket [3, 9, 2, 0] 25]"
  have e: "registeredNodes ?s0 = []" by (simp add: LoRaManager_new_def)
  have ids: "map nodeID (registeredNodes (run ?s0 ?calls)) = [2, 1]" by code_simp
  show ?thesis using e ids C1_unique_ids_and_macs [OF e, of ?calls] by simp
qed

subsection \<open>Pairing completion\<close>

lemma discoveredType_find:
  "discoveredType ds m dflt =
     (case find (\<lambda>d. d_macAddr d = m) ds of None \<Rightarrow> dflt | Some d \<Rightarrow> d_deviceType d)"
  by (induction ds) auto

text \<open>
  C2. In a session that is WaitingAck with assigned ID \<open>k\<close> and target MAC \<open>m\<close>, an Ack
  with \<open>ackType = PKG_WELCOME\<close> and \<open>status = ERR_NONE\<close> appends one node to the registry,
  with ID \<open>k\<close>, MAC \<open>m\<close> and the device type of the first discovered entry with MAC \<open>m\<close>
  (the default \<open>DEV_TYPE_RELAY_2CH\<close> when there is none); \<open>saveNodes\<close> runs once, on the
  new registry; after it the pairing callback, when one is registered, is called once,
  with \<open>(k, true)\<close>; and the pairing state is Idle again.
\<close>

theorem C2_welcome_ack_registers:
  assumes "pairingState s = PAIR_WAITING_ACK"
    and "ack_ackType pkt = PKG_WELCOME"
    and "ack_status pkt = ERR_NONE"
  shows "registeredNodes (handleAck s pkt now) =
           registeredNodes s @
             [\<lparr> nodeID = pairingNodeID s, macAddr = pairingMAC s,
                deviceType = (case find (\<lambda>d. d_macAddr d = pairingMAC s) (discoveredNodes s) of
                                None \<Rightarrow> DEV_TYPE_RELAY_2CH | Some d \<Rightarrow> d_deviceType d),
                name = nodeName (pairingNodeID s), relayStatus = 0, lastRSSI = 0, lastSNR = 0,
                uptime = 0, lastSeen = now, online = True, valid = True \<rparr>]
       \<and> events (handleAck s pkt now) =
           events s @ [SaveNodes (flashWritable s)] @
             (if pairingCallback s then [PairingCallback (pairingNodeID s) True] else [])
       \<and> nodesFile (handleAck s pkt now) =
           (if flashWritable s
            then Parsed (map toJson (filter valid (registeredNodes (handleAck s pkt now))))
            else nodesFile s)
       \<and> pairingState (handleAck s pkt now) = PAIR_IDLE"
  using assms
  by (simp add: handleAck_def Let_def saveNodes_def emit_def newRegisteredNode_def
      discoveredType_find)

lemma scenarioB_fields:
  "pairingState scenarioB = PAIR_WAITING_ACK"
  "pairingNodeID scenarioB = 1"
  "pairingMAC scenarioB = scenarioMAC"
  "registeredNodes scenarioB = []"
  "discoveredNodes scenarioB =
     [\<lparr>d_macAddr = scenarioMAC, d_deviceType = 2, d_fwVersion = 1, d_rssi = - 50,
       d_snr = 10, d_discoveredAt = 5, d_valid = True\<rparr>]"
  "events scenarioB =
     [NodeDiscoveredCallback
        \<lparr>d_macAddr = scenarioMAC, d_deviceType = 2, d_fwVersion = 1, d_rssi = - 50,
         d_snr = 10, d_discoveredAt = 5, d_valid = True\<rparr>,
      SendPacket [0x02, 0xAA, 0xBB, 0xCC, 0x11, 0x22, 0x33, 1, 0] True]"
  "pairingCallback scenarioB"
  "flashWritable scenarioB"
  "scanMode scenarioB"
  by code_simp+

lemma nodeName_1: "nodeName 1 = ''Node_1''"
  by code_simp

theorem C2_welcome_ack_registers_witness:
  "pairingState scenarioB = PAIR_WAITING_ACK \<and>
   registeredNodes
     (handleAck scenarioB
        \<lparr>ack_type = PKG_ACK, ack_nodeID = 1, ack_ackType = PKG_WELCOME, ack_status = ERR_NONE\<rparr>
        200) =
     [\<lparr> nodeID = 1, macAddr = scenarioMAC, deviceType = 2, name = ''Node_1'',
        relayStatus = 0, lastRSSI = 0, lastSNR = 0, uptime = 0, lastSeen = 200,
        online = True, valid = True \<rparr>] \<and>
   events
     (handleAck scenarioB
        \<lparr>ack_type = PKG_ACK, ack_nodeID = 1, ack_ackType = PKG_WELCOME, ack_status = ERR_NONE\<rparr>
        200) =
     events scenarioB @ [SaveNodes True, PairingCallback 1 True] \<and>
   pairingState
     (handleAck scenarioB
        \<lparr>ack_type = PKG_ACK, ack_nodeID = 1, ack_ackType = PKG_WELCOME, ack_status = ERR_NONE\<rparr>
        200) = PAIR_IDLE"
  using C2_welcome_ack_registers [of scenarioB
      "\<lparr>ack_type = PKG_ACK, ack_nodeID = 1, ack_ackType = PKG_WELCOME, ack_status = ERR_NONE\<rparr>"
      200]
  by (simp add: scenarioB_fields nodeName_1)

subsection \<open>The Ack's own node ID\<close>

text \<open>
  C10. \<open>_handleAck\<close> never reads the \<open>nodeID\<close> field of the Ack: two Acks that differ
  only in that field leave the manager in the same state (registry, session, file and
  outside calls alike), both at the handler and at the packet dispatcher; what is
  registered and reported comes from the session's \<open>_pairingNodeID\<close> and \<open>_pairingMAC\<close>.
\<close>

theorem C10_ack_nodeID_ignored:
  "handleAck s (pkt\<lparr>ack_nodeID := a\<rparr>) now = handleAck s (pkt\<lparr>ack_nodeID := b\<rparr>) now \<and>
   handlePacket s (PKG_ACK # a # rest) now = handlePacket s (PKG_ACK # b # rest) now"
proof -
  have 1: "handleAck s (pkt\<lparr>ack_nodeID := a\<rparr>) now = handleAck s (pkt\<lparr>ack_nodeID := b\<rparr>) now"
    by (simp add: handleAck_def)
  have 2: "handleAck s (asAck (PKG_ACK # a # rest)) now = handleAck s (asAck (PKG_ACK # b # rest)) now"
    by (simp add: handleAck_def asAck_def)
  have 3: "handlePacket s (PKG_ACK # c # rest) now =
        (if length (PKG_ACK # c # rest) \<ge> sizeof_AckPacket_t
         then handleAck s (asAck (PKG_ACK # c # rest)) now else s)" for c
    by (simp add: handlePacket_def PKG_ACK_def PKG_HELLO_def)
  show ?thesis using 1 2 by (simp add: 3)
qed

subsection \<open>Discovery\<close>

lemma isDuplicateDiscovered_iff: "isDuplicateDiscovered ds m = (m \<in> d_macAddr ` set ds)"
  by (induction ds) auto

lemma isNodeRegistered_set:
  "isNodeRegistered regs m = (\<exists>n \<in> set regs. valid n \<and> macAddr n = m)"
  by (induction regs) auto

lemma handleHello_cases:
  "handleHello s pkt rssi snr now =
     (if scanMode s \<and> hello_macAddr pkt \<notin> d_macAddr ` set (discoveredNodes s)
         \<and> \<not> (\<exists>n \<in> set (registeredNodes s). valid n \<and> macAddr n = hello_macAddr pkt)
         \<and> length (discoveredNodes s) < 16
      then s\<lparr>discoveredNodes := discoveredNodes s @
                 [\<lparr>d_macAddr = hello_macAddr pkt, d_deviceType = hello_deviceType pkt,
                   d_fwVersion = hello_fwVersion pkt, d_rssi = rssi, d_snr = snr,
                   d_discoveredAt = now, d_valid = True\<rparr>],
             events := events s @
                 (if nodeDiscoveredCallback s
                  then [NodeDiscoveredCallback
                          \<lparr>d_macAddr = hello_macAddr pkt, d_deviceType = hello_deviceType pkt,
                           d_fwVersion = hello_fwVersion pkt, d_rssi = rssi, d_snr = snr,
                           d_discoveredAt = now, d_valid = True\<rparr>]
                  else [])\<rparr>
      else s)"
  by (simp add: handleHello_def addDiscoveredNode_def Let_def emit_def MAX_DISCOVERED_NODES_def
      isDuplicateDiscovered_iff isNodeRegistered_set not_le)

text \<open>
  C6. A Hello appends an entry to the discovered list, and calls the discovery callback
  when one is registered, if and only if a scan is active, its MAC is not yet in the
  discovered list, its MAC belongs to no valid registered node and the list holds fewer
  than 16 entries; the entry is appended at the end and carries the MAC, device type and
  firmware version of the Hello. In every other case the manager is left as it was: so a
  Hello from a registered MAC is never appended, whatever the scan state, and a Hello that
  finds 16 entries leaves all of them in place. An incoming payload of type \<open>PKG_HELLO\<close>
  reaches this handler exactly when it has at least the nine bytes of the packet.
\<close>

theorem C6_hello_gating:
  "(scanMode s \<and> hello_macAddr pkt \<notin> d_macAddr ` set (discoveredNodes s)
      \<and> \<not> (\<exists>n \<in> set (registeredNodes s). valid n \<and> macAddr n = hello_macAddr pkt)
      \<and> length (discoveredNodes s) < 16
    \<longrightarrow> discoveredNodes (handleHello s pkt rssi snr now) =
          discoveredNodes s @
            [\<lparr>d_macAddr = hello_macAddr pkt, d_deviceType = hello_deviceType pkt,
              d_fwVersion = hello_fwVersion pkt, d_rssi = rssi, d_snr = snr,
              d_discoveredAt = now, d_valid = True\<rparr>]
        \<and> events (handleHello s pkt rssi snr now) =
          events s @
            (if nodeDiscoveredCallback s
             then [NodeDiscoveredCallback
                     \<lparr>d_macAddr = hello_macAddr pkt, d_deviceType = hello_deviceType pkt,
                      d_fwVersion = hello_fwVersion pkt, d_rssi = rssi, d_snr = snr,
                      d_discoveredAt = now, d_valid = True\<rparr>]
             else []))
   \<and> (\<not> (scanMode s \<and> hello_macAddr pkt \<notin> d_macAddr ` set (discoveredNodes s)
         \<and> \<not> (\<exists>n \<in> set (registeredNodes s). valid n \<and> macAddr n = hello_macAddr pkt)
         \<and> length (discoveredNodes s) < 16)
    \<longrightarrow> handleHello s pkt rssi snr now = s)
   \<and> ((\<exists>n \<in> set (registeredNodes s). valid n \<and> macAddr n = hello_macAddr pkt)
    \<longrightarrow> discoveredNodes (handleHello s pkt rssi snr now) = discoveredNodes s)
   \<and> (length (discoveredNodes s) \<ge> 16
    \<longrightarrow> discoveredNodes (handleHello s pkt rssi snr now) = discoveredNodes s)
   \<and> registeredNodes (handleHello s pkt rssi snr now) = registeredNodes s
   \<and> handlePacket s (PKG_HELLO # rest) now =
       (if length rest \<ge> 8 then handleHello s (asHello (PKG_HELLO # rest)) (- 50) 10 now else s)"
proof -
  have pk: "handlePacket s (PKG_HELLO # rest) now =
       (if length rest \<ge> 8 then handleHello s (asHello (PKG_HELLO # rest)) (- 50) 10 now else s)"
    by (simp add: handlePacket_def sizeof_HelloPacket_t_def)
  show ?thesis
    unfolding pk by (simp add: handleHello_cases)
qed

lemma scanningState_fields:
  "scanMode scanningState"
  "discoveredNodes scanningState = []"
  "registeredNodes scanningState = []"
  "nodeDiscoveredCallback scanningState"
  "events scanningState = []"
  by code_simp+

lemma fullScanState_fields:
  "scanMode fullScanState"
  "length (discoveredNodes fullScanState) = 16"
  "map d_macAddr (discoveredNodes fullScanState) = map testMAC [1..<17]"
  by code_simp+

lemma pairedState_fields:
  "scanMode pairedState"
  "discoveredNodes pairedState = []"
  "map macAddr (registeredNodes pairedState) = [scenarioMAC]"
  "map valid (registeredNodes pairedState) = [True]"
  by code_simp+

theorem C6_hello_gating_witness:
  "scanMode scanningState \<and> discoveredNodes scanningState = [] \<and>
   discoveredNodes (handleHello scanningState (helloFrom scenarioMAC) (- 50) 10 5) =
     [\<lparr>d_macAddr = scenarioMAC, d_deviceType = 2, d_fwVersion = 1, d_rssi = - 50, d_snr = 10,
       d_discoveredAt = 5, d_valid = True\<rparr>] \<and>
   events (handleHello scanningState (helloFrom scenarioMAC) (- 50) 10 5) =
     [NodeDiscoveredCallback
        \<lparr>d_macAddr = scenarioMAC, d_deviceType = 2, d_fwVersion = 1, d_rssi = - 50, d_snr = 10,
         d_discoveredAt = 5, d_valid = True\<rparr>] \<and>
   scanMode fullScanState \<and> length (discoveredNodes fullScanState) = 16 \<and>
   handleHello fullScanState (helloFrom (testMAC 17)) (- 50) 10 5 = fullScanState \<and>
   scanMode pairedState \<and> map macAddr (registeredNodes pairedState) = [scenarioMAC] \<and>
   discoveredNodes (handleHello pairedState (helloFrom scenarioMAC) (- 50) 10 400) = []"
proof -
  have reg: "\<exists>n \<in> set (registeredNodes pairedState). valid n \<and> macAddr n = scenarioMAC"
    using pairedState_fields(3,4) by (cases "registeredNodes pairedState") auto
  show ?thesis
    using C6_hello_gating [of scanningState "helloFrom scenarioMAC" "- 50" 10 5 "[]"]
      C6_hello_gating [of fullScanState "helloFrom (testMAC 17)" "- 50" 10 5 "[]"]
      C6_hello_gating [of pairedState "helloFrom scenarioMAC" "- 50" 10 400 "[]"]
      reg
    by (simp add: scanningState_fields fullScanState_fields pairedState_fields helloFrom_def)
qed

subsection \<open>Filling the registry by successive pairings\<close>

lemma run_append: "run s (a @ b) = run (run s a) b"
  by (simp add: run_def)

lemma pairMany_Suc: "pairMany (Suc n) = pairMany n @ pairCycle (Suc n)"
  by (simp add: pairMany_def)

lemma of_nat_u8_eq: "i < 256 \<Longrightarrow> (of_nat i = (j :: u8)) = (i = unat j)"
  by (auto simp: word_unat_eq_iff unat_of_nat)

lemma idInUse_testNodes:
  assumes "n < 256"
  shows "idInUse (map testNode [1..<Suc n]) j = (1 \<le> unat j \<and> unat j \<le> n)"
proof -
  have "idInUse (map testNode [1..<Suc n]) j = (\<exists>i \<in> {1..<Suc n}. of_nat i = j)"
    by (auto simp: idInUse_def list_ex_iff testNode_def)
  also have "\<dots> = (\<exists>i \<in> {1..<Suc n}. i = unat j)"
    using assms by (intro bex_cong refl of_nat_u8_eq) auto
  also have "\<dots> = (1 \<le> unat j \<and> unat j \<le> n)" by auto
  finally show ?thesis .
qed

lemma getNextFreeID_testNodes:
  assumes "n < 254"
  shows "getNextFreeID (map testNode [1..<Suc n]) = of_nat (Suc n)"
proof -
  define regs where "regs = map testNode [1..<Suc n]"
  define k :: u8 where "k = of_nat (Suc n)"
  define r where "r = getNextFreeID regs"
  have n256: "n < 256" using assms by simp
  have inuse: "idInUse regs j = (1 \<le> unat j \<and> unat j \<le> n)" for j
    unfolding regs_def by (rule idInUse_testNodes [OF n256])
  have uk: "unat k = Suc n" unfolding k_def using assms by (simp add: unat_of_nat del: of_nat_Suc)
  have kfree: "\<not> idInUse regs k" using uk by (simp add: inuse)
  have krange: "1 \<le> k \<and> k \<le> 254" using uk assms by (simp add: word_le_nat_alt)
  have nz: "r \<noteq> 0" unfolding r_def using kfree krange by (auto simp: getNextFreeID_zero_iff)
  have f: "1 \<le> r \<and> r \<le> 254 \<and> \<not> idInUse regs r \<and> (\<forall>j. 1 \<le> j \<and> j < r \<longrightarrow> idInUse regs j)"
    using getNextFreeID_found [of regs] nz unfolding r_def by blast
  have "\<not> (1 \<le> unat r \<and> unat r \<le> n)" using f by (simp add: inuse)
  moreover have "1 \<le> unat r" using f by (simp add: word_le_nat_alt)
  ultimately have gt: "n < unat r" by simp
  have "\<not> k < r" using f kfree krange by blast
  then have "unat r \<le> Suc n" using uk by (simp add: word_less_nat_alt)
  then have "unat r = unat k" using gt uk by simp
  then have "r = k" by (simp add: word_unat_eq_iff)
  then show ?thesis unfolding r_def k_def regs_def .
qed

lemma getNextFreeID_full: "getNextFreeID (map testNode [1..<255]) = 0"
proof -
  have "idInUse (map testNode [1..<Suc 254]) j" if "1 \<le> j \<and> j \<le> 254" for j :: u8
    using that idInUse_testNodes [of 254 j] by (simp add: word_le_nat_alt)
  then show ?thesis by (simp add: getNextFreeID_zero_iff)
qed

lemma testMAC_not_registered:
  assumes "n < 256" "n < m" "m < 256"
  shows "\<not> isNodeRegistered (map testNode [1..<Suc n]) (testMAC m)"
proof -
  define mw :: u8 where "mw = of_nat m"
  have um: "unat mw = m" unfolding mw_def using assms by (simp add: unat_of_nat)
  have "of_nat i \<noteq> mw" if "i \<le> n" for i
    using that assms um by (simp add: of_nat_u8_eq)
  then have "\<forall>i \<in> {1..<Suc n}. testMAC i \<noteq> MAC 0 0 0 0 0 mw" by (simp add: testMAC_def)
  then have "\<not> isNodeRegistered (map testNode [1..<Suc n]) (MAC 0 0 0 0 0 mw)"
    by (auto simp: isNodeRegistered_set testNode_def)
  then show ?thesis unfolding testMAC_def mw_def .
qed

lemma handlePacket_ack:
  "handlePacket s [PKG_ACK, a, t, st] now =
     handleAck s \<lparr>ack_type = PKG_ACK, ack_nodeID = a, ack_ackType = t, ack_status = st\<rparr> now"
  by (simp add: handlePacket_def asAck_def sizeof_AckPacket_t_def PKG_ACK_def PKG_HELLO_def)

lemma pairCycle_step:
  assumes f: "filledTo n s" and n: "n < 254"
  shows "filledTo (Suc n) (run s (pairCycle (Suc n)))
         \<and> fst (startPairing s (testMAC (Suc n)) 0 True)"
proof -
  define k :: u8 where "k = of_nat (Suc n)"
  define m where "m = testMAC (Suc n)"
  have regs: "registeredNodes s = map testNode [1..<Suc n]"
    and idle: "pairingState s = PAIR_IDLE" and disc: "discoveredNodes s = []"
    and ini: "initialized s"
    using f by (simp_all add: filledTo_def)
  have notreg: "\<not> isNodeRegistered (registeredNodes s) m"
    unfolding regs m_def using n by (intro testMAC_not_registered) simp_all
  have free: "getNextFreeID (registeredNodes s) = k"
    unfolding regs k_def using n by (rule getNextFreeID_testNodes)
  have knz: "k \<noteq> 0"
  proof -
    have "unat k = Suc n" unfolding k_def using n by (simp add: unat_of_nat del: of_nat_Suc)
    then show ?thesis by auto
  qed
  define s1 where "s1 = snd (startPairing s m 0 True)"
  have sp: "startPairing s m 0 True =
      (True, emit (SendPacket ([PKG_WELCOME] @ macBytes m @ [k, 0]) True)
               (s\<lparr>pairingNodeID := k, pairingMAC := m, pairingStartTime := 0,
                  pairingState := PAIR_WAITING_ACK\<rparr>))"
    using idle notreg free knz ini
    by (simp add: startPairing_def Let_def sendWelcome_def sendPacket_def)
  have s1f: "pairingState s1 = PAIR_WAITING_ACK" "pairingNodeID s1 = k" "pairingMAC s1 = m"
    "registeredNodes s1 = registeredNodes s" "discoveredNodes s1 = []" "initialized s1"
    unfolding s1_def sp using disc ini by (simp_all add: emit_def)
  define s2 where "s2 = handleAck s1
      \<lparr>ack_type = PKG_ACK, ack_nodeID = k, ack_ackType = PKG_WELCOME, ack_status = ERR_NONE\<rparr> 0"
  have node: "newRegisteredNode s1 0 = testNode (Suc n)"
    using s1f by (simp add: newRegisteredNode_def testNode_def k_def m_def del: of_nat_Suc)
  have s2f: "registeredNodes s2 = registeredNodes s @ [testNode (Suc n)]"
    "pairingState s2 = PAIR_IDLE" "pairingNodeID s2 = k" "discoveredNodes s2 = []"
    "initialized s2"
    unfolding s2_def using s1f node
    by (simp_all add: handleAck_def Let_def saveNodes_def emit_def)
  have r: "run s (pairCycle (Suc n)) = s2"
    unfolding pairCycle_def run_def s2_def s1_def k_def m_def
    by (simp add: handlePacket_ack del: of_nat_Suc)
  have "filledTo (Suc n) s2"
    unfolding filledTo_def using s2f regs by (simp add: k_def del: of_nat_Suc)
  then show ?thesis using r sp by (simp add: m_def)
qed

lemma bootedState_filled: "filledTo 0 bootedState"
  by (simp add: filledTo_def bootedState_def LoRaManager_new_def)

lemma pairMany_filled: "n \<le> 254 \<Longrightarrow> filledTo n (run bootedState (pairMany n))"
proof (induction n)
  case 0
  then show ?case by (simp add: pairMany_def run_def bootedState_filled)
next
  case (Suc n)
  then have "filledTo n (run bootedState (pairMany n))" and "n < 254" by simp_all
  from pairCycle_step [OF this] show ?case
    by (simp add: pairMany_Suc run_append)
qed

subsection \<open>Capacity of the registry\<close>

text \<open>
  C4 (the code does not enforce it). \<open>MAX_NODES\<close> is 32, but nothing compares the size of
  the registry with it: after 32 completed pairings the registry holds \<open>MAX_NODES\<close>
  entries, the next \<open>startPairing\<close> still returns true, and its Ack appends the 33rd
  entry; the registry grows until the 254 node IDs are used up.
\<close>

theorem C4_registry_exceeds_MAX_NODES:
  "length (registeredNodes (run bootedState (pairMany 32))) = MAX_NODES \<and>
   fst (startPairing (run bootedState (pairMany 32)) (testMAC 33) 0 True) \<and>
   length (registeredNodes (run bootedState (pairMany 33))) = 33 \<and>
   list_all valid (registeredNodes (run bootedState (pairMany 33))) \<and>
   length (registeredNodes (run bootedState (pairMany 254))) = 254"
proof -
  have f32: "filledTo 32 (run bootedState (pairMany 32))" by (rule pairMany_filled) simp
  have f33: "filledTo 33 (run bootedState (pairMany 33))" by (rule pairMany_filled) simp
  have f254: "filledTo 254 (run bootedState (pairMany 254))" by (rule pairMany_filled) simp
  have sp: "fst (startPairing (run bootedState (pairMany 32)) (testMAC (Suc 32)) 0 True)"
    using pairCycle_step [OF f32] by simp
  have v: "list_all valid (map testNode xs)" for xs
    by (induction xs) (simp_all add: testNode_def)
  show ?thesis
    using f32 f33 f254 sp v [of "[1..<Suc 33]"]
    by (simp add: filledTo_def MAX_NODES_def)
qed

subsection \<open>Pairing timeout\<close>

lemma pairingCallbacks_append [simp]:
  "pairingCallbacks (a @ b) = pairingCallbacks a @ pairingCallbacks b"
  by (simp add: pairingCallbacks_def)

lemma pairingCallbacks_single [simp]:
  "pairingCallbacks [PairingCallback k ok] = [(k, ok)]"
  "pairingCallbacks [NodeDiscoveredCallback d] = []"
  "pairingCallbacks [NodeDataCallback k p] = []"
  "pairingCallbacks [SendPacket bytes r] = []"
  "pairingCallbacks [SaveNodes r] = []"
  "pairingCallbacks [] = []"
  by (simp_all add: pairingCallbacks_def)

lemma handleHello_session [simp]: "sessionView (handleHello s pkt rssi snr now) = sessionView s"
  by (simp add: handleHello_def addDiscoveredNode_def Let_def sessionView_def emit_def)

lemma handleData_session [simp]: "sessionView (handleData s pkt now) = sessionView s"
  by (simp add: handleData_def Let_def sessionView_def emit_def split: option.splits)

lemma handleHeartbeat_session [simp]: "sessionView (handleHeartbeat s pkt now) = sessionView s"
  by (simp add: handleHeartbeat_def Let_def sessionView_def split: option.splits)

lemma handleAck_not_waiting:
  "pairingState s \<noteq> PAIR_WAITING_ACK \<Longrightarrow> handleAck s pkt now = s"
  by (simp add: handleAck_def)

lemma handlePacket_session:
  "\<not> isAck d \<or> pairingState s \<noteq> PAIR_WAITING_ACK \<Longrightarrow>
     sessionView (handlePacket s d now) = sessionView s"
  by (auto simp: handlePacket_def Let_def isAck_def handleAck_not_waiting Suc_le_eq)

lemma foldl_handlePacket_session:
  "list_all (\<lambda>d. \<not> isAck d) rx \<or> pairingState s \<noteq> PAIR_WAITING_ACK \<Longrightarrow>
     sessionView (foldl (\<lambda>t d. handlePacket t d now) s rx) = sessionView s"
proof (induction rx arbitrary: s)
  case Nil
  then show ?case by simp
next
  case (Cons d rx)
  have 1: "sessionView (handlePacket s d now) = sessionView s"
    using Cons.prems by (intro handlePacket_session) auto
  then have "pairingState (handlePacket s d now) = pairingState s"
    by (simp add: sessionView_def)
  then have 2: "sessionView (foldl (\<lambda>t d. handlePacket t d now) (handlePacket s d now) rx)
             = sessionView (handlePacket s d now)"
    using Cons.prems by (intro Cons.IH) auto
  show ?case using 1 2 by simp
qed

lemma stopScan_session [simp]: "sessionView (stopScan s) = sessionView s"
  by (simp add: stopScan_def sessionView_def)

lemma updateNodeOnlineStatus_session [simp]:
  "sessionView (updateNodeOnlineStatus s now) = sessionView s"
  by (simp add: updateNodeOnlineStatus_def sessionView_def)

lemma lastNodeCheck_session [simp]: "sessionView (s\<lparr>lastNodeCheck := t\<rparr>) = sessionView s"
  by (simp add: sessionView_def)

lemma update_session:
  assumes "initialized s"
  shows "sessionView (update s now rx) =
         sessionView (checkPairingTimeout
           (let s1 = foldl (\<lambda>t d. handlePacket t d now) s rx
            in if scanMode s1 \<and> now - scanStartTime s1 \<ge> scanDuration s1
               then stopScan s1 else s1) now)"
  using assms by (simp add: update_def Let_def)

lemma checkPairingTimeout_session:
  "sessionView (checkPairingTimeout s now) =
     (if pairingState s = PAIR_WAITING_ACK \<and> LORA_PAIRING_TIMEOUT \<le> now - pairingStartTime s
      then (PAIR_IDLE, pairingMAC s, pairingNodeID s, pairingStartTime s, pairingCallback s,
            pairingCallbacks (events s) @
              (if pairingCallback s then [(pairingNodeID s, False)] else []),
            initialized s)
      else sessionView s)"
  by (simp add: checkPairingTimeout_def Let_def sessionView_def emit_def)


lemma update_session_not_waiting:
  assumes "pairingState s \<noteq> PAIR_WAITING_ACK"
  shows "sessionView (update s now rx) = sessionView s"
proof (cases "initialized s")
  case False
  then show ?thesis by (simp add: update_def)
next
  case True
  define s1 where "s1 = foldl (\<lambda>t d. handlePacket t d now) s rx"
  define s2 where "s2 = (if scanMode s1 \<and> now - scanStartTime s1 \<ge> scanDuration s1
               then stopScan s1 else s1)"
  have 1: "sessionView s1 = sessionView s"
    unfolding s1_def using assms by (intro foldl_handlePacket_session) simp
  have 2: "sessionView s2 = sessionView s" unfolding s2_def using 1 by simp
  have 3: "sessionView (update s now rx) = sessionView (checkPairingTimeout s2 now)"
    using update_session [OF True, of now rx] by (simp add: s2_def s1_def Let_def)
  show ?thesis
    unfolding 3 checkPairingTimeout_session using 2 assms
    by (simp add: sessionView_def)
qed

text \<open>The difference of two clock values is the elapsed time, also across a wrap of
  \<open>millis()\<close>, as long as less than \<open>2^32\<close> ms have passed.\<close>

lemma millis_elapsed:
  assumes "t0 \<le> t1" and "t1 - t0 < 2 ^ 32"
  shows "unat (millis t1 - millis t0) = t1 - t0"
proof -
  have "millis t1 - millis t0 = (word_of_nat (t1 - t0) :: u32)"
    using assms(1) by (simp add: millis_def)
  then show ?thesis using assms(2) by (simp add: unat_of_nat)
qed




subsection \<open>Rejected pairing requests\<close>

text \<open>Calls that neither read nor write \<open>_pairingNodeID\<close> commute with a change of it.\<close>

lemma emit_pid: "emit e (s\<lparr>pairingNodeID := k\<rparr>) = (emit e s)\<lparr>pairingNodeID := k\<rparr>"
  by (simp add: emit_def)

lemma saveNodes_pid:
  "saveNodes (s\<lparr>pairingNodeID := k\<rparr>) = (fst (saveNodes s), (snd (saveNodes s))\<lparr>pairingNodeID := k\<rparr>)"
  by (simp add: saveNodes_def emit_def Let_def)

lemma removeNode_pid:
  "removeNode (s\<lparr>pairingNodeID := k\<rparr>) j =
     (fst (removeNode s j), (snd (removeNode s j))\<lparr>pairingNodeID := k\<rparr>)"
  by (simp add: removeNode_def saveNodes_def emit_def Let_def split: option.splits)

lemma scan_pid:
  "startScan (s\<lparr>pairingNodeID := k\<rparr>) d now = (startScan s d now)\<lparr>pairingNodeID := k\<rparr>"
  "stopScan (s\<lparr>pairingNodeID := k\<rparr>) = (stopScan s)\<lparr>pairingNodeID := k\<rparr>"
  by (simp_all add: startScan_def stopScan_def clearDiscoveredNodes_def)

lemma callbacks_pid:
  "onPairingComplete (s\<lparr>pairingNodeID := k\<rparr>) = (onPairingComplete s)\<lparr>pairingNodeID := k\<rparr>"
  "onNodeDiscovered (s\<lparr>pairingNodeID := k\<rparr>) = (onNodeDiscovered s)\<lparr>pairingNodeID := k\<rparr>"
  "onNodeData (s\<lparr>pairingNodeID := k\<rparr>) = (onNodeData s)\<lparr>pairingNodeID := k\<rparr>"
  by (simp_all add: onPairingComplete_def onNodeDiscovered_def onNodeData_def)

lemma handleHello_pid:
  "handleHello (s\<lparr>pairingNodeID := k\<rparr>) pkt rssi snr now =
     (handleHello s pkt rssi snr now)\<lparr>pairingNodeID := k\<rparr>"
  by (simp add: handleHello_def addDiscoveredNode_def Let_def emit_def)

lemma handleData_pid:
  "handleData (s\<lparr>pairingNodeID := k\<rparr>) pkt now = (handleData s pkt now)\<lparr>pairingNodeID := k\<rparr>"
  by (simp add: handleData_def Let_def emit_def split: option.splits)

lemma handleHeartbeat_pid:
  "handleHeartbeat (s\<lparr>pairingNodeID := k\<rparr>) pkt now =
     (handleHeartbeat s pkt now)\<lparr>pairingNodeID := k\<rparr>"
  by (simp add: handleHeartbeat_def Let_def split: option.splits)

lemma updateNodeOnlineStatus_pid:
  "updateNodeOnlineStatus (s\<lparr>pairingNodeID := k\<rparr>) now =
     (updateNodeOnlineStatus s now)\<lparr>pairingNodeID := k\<rparr>"
  by (simp add: updateNodeOnlineStatus_def)

lemma handlePacket_pid:
  assumes "pairingState s \<noteq> PAIR_WAITING_ACK"
  shows "handlePacket (s\<lparr>pairingNodeID := k\<rparr>) d now = (handlePacket s d now)\<lparr>pairingNodeID := k\<rparr>"
  using assms
  by (simp add: handlePacket_def Let_def handleHello_pid handleData_pid handleHeartbeat_pid
      handleAck_not_waiting)

lemma pairingState_of_view: "sessionView t = sessionView s \<Longrightarrow> pairingState t = pairingState s"
  by (simp add: sessionView_def)

lemma foldl_handlePacket_pid:
  assumes "pairingState s \<noteq> PAIR_WAITING_ACK"
  shows "foldl (\<lambda>t d. handlePacket t d now) (s\<lparr>pairingNodeID := k\<rparr>) rx =
         (foldl (\<lambda>t d. handlePacket t d now) s rx)\<lparr>pairingNodeID := k\<rparr>"
  using assms
proof (induction rx arbitrary: s)
  case Nil
  then show ?case by simp
next
  case (Cons d rx)
  have "sessionView (handlePacket s d now) = sessionView s"
    using Cons.prems by (intro handlePacket_session) simp
  then have "pairingState (handlePacket s d now) \<noteq> PAIR_WAITING_ACK"
    using Cons.prems by (simp add: sessionView_def)
  from Cons.IH [OF this] show ?case
    using Cons.prems by (simp add: handlePacket_pid)
qed

lemma checkPairingTimeout_not_waiting:
  "pairingState s \<noteq> PAIR_WAITING_ACK \<Longrightarrow> checkPairingTimeout s now = s"
  by (simp add: checkPairingTimeout_def)

lemma stopScan_pairingState: "pairingState (stopScan s) = pairingState s"
  by (simp add: stopScan_def)

lemma update_not_waiting:
  assumes "initialized s" and "pairingState (foldl (\<lambda>t d. handlePacket t d now) s rx) \<noteq> PAIR_WAITING_ACK"
  shows "update s now rx =
     (let s1 = foldl (\<lambda>t d. handlePacket t d now) s rx;
          s2 = (if scanMode s1 \<and> now - scanStartTime s1 \<ge> scanDuration s1
                then stopScan s1 else s1)
      in if now - lastNodeCheck s2 \<ge> 5000
         then updateNodeOnlineStatus (s2\<lparr>lastNodeCheck := now\<rparr>) now else s2)"
  using assms
  by (simp add: update_def Let_def checkPairingTimeout_not_waiting stopScan_pairingState)

lemma update_pid:
  assumes nw: "pairingState s \<noteq> PAIR_WAITING_ACK"
  shows "update (s\<lparr>pairingNodeID := k\<rparr>) now rx = (update s now rx)\<lparr>pairingNodeID := k\<rparr>"
proof (cases "initialized s")
  case False
  then show ?thesis by (simp add: update_def)
next
  case True
  define s1 where "s1 = foldl (\<lambda>t d. handlePacket t d now) s rx"
  have v1: "sessionView s1 = sessionView s"
    unfolding s1_def using nw by (intro foldl_handlePacket_session) simp
  have nw1: "pairingState s1 \<noteq> PAIR_WAITING_ACK"
    using v1 nw by (simp add: sessionView_def)
  have f: "foldl (\<lambda>t d. handlePacket t d now) (s\<lparr>pairingNodeID := k\<rparr>) rx = s1\<lparr>pairingNodeID := k\<rparr>"
    unfolding s1_def using nw by (rule foldl_handlePacket_pid)
  have a: "update s now rx =
     (let s2 = (if scanMode s1 \<and> now - scanStartTime s1 \<ge> scanDuration s1
                then stopScan s1 else s1)
      in if now - lastNodeCheck s2 \<ge> 5000
         then updateNodeOnlineStatus (s2\<lparr>lastNodeCheck := now\<rparr>) now else s2)"
    using update_not_waiting [of s now rx] True nw1 by (simp add: s1_def Let_def)
  have b: "update (s\<lparr>pairingNodeID := k\<rparr>) now rx =
     (let t1 = s1\<lparr>pairingNodeID := k\<rparr>;
          s2 = (if scanMode t1 \<and> now - scanStartTime t1 \<ge> scanDuration t1
                then stopScan t1 else t1)
      in if now - lastNodeCheck s2 \<ge> 5000
         then updateNodeOnlineStatus (s2\<lparr>lastNodeCheck := now\<rparr>) now else s2)"
    using update_not_waiting [of "s\<lparr>pairingNodeID := k\<rparr>" now rx] True nw1
    by (simp add: f Let_def)
  have c: "updateNodeOnlineStatus (x\<lparr>pairingNodeID := k, lastNodeCheck := now\<rparr>) now
         = (updateNodeOnlineStatus (x\<lparr>lastNodeCheck := now\<rparr>) now)\<lparr>pairingNodeID := k\<rparr>" for x
    by (simp add: updateNodeOnlineStatus_def)
  show ?thesis unfolding a b
    by (simp add: Let_def scan_pid c)
qed

lemma cancelPairing_pid: "cancelPairing (s\<lparr>pairingNodeID := k\<rparr>) = cancelPairing s"
  by (simp add: cancelPairing_def)

lemma startPairing_pid:
  assumes "pairingState s \<noteq> PAIR_WAITING_ACK"
  shows "startPairing (s\<lparr>pairingNodeID := k\<rparr>) m now txOk = startPairing s m now txOk
       \<or> (startPairing s m now txOk = (False, s)
          \<and> startPairing (s\<lparr>pairingNodeID := k\<rparr>) m now txOk = (False, s\<lparr>pairingNodeID := k\<rparr>))"
  by (simp add: startPairing_def Let_def sendWelcome_def sendPacket_def emit_def)

lemma sameUpToIdleID_refl: "sameUpToIdleID s s"
  by (simp add: sameUpToIdleID_def)

lemma sameUpToIdleID_upd:
  "pairingState s \<noteq> PAIR_WAITING_ACK \<Longrightarrow> sameUpToIdleID s (s\<lparr>pairingNodeID := k\<rparr>)"
  by (simp add: sameUpToIdleID_def)

lemma sameUpToIdleID_cases:
  assumes "sameUpToIdleID s t"
  obtains "t = s" | k where "pairingState s \<noteq> PAIR_WAITING_ACK" "t = s\<lparr>pairingNodeID := k\<rparr>"
  using assms unfolding sameUpToIdleID_def by blast

lemma removeNode_pairingState: "pairingState (snd (removeNode s j)) = pairingState s"
  by (simp add: removeNode_def saveNodes_def emit_def Let_def split: option.splits)

lemma callbacks_pairingState:
  "pairingState (onPairingComplete s) = pairingState s"
  "pairingState (onNodeDiscovered s) = pairingState s"
  "pairingState (onNodeData s) = pairingState s"
  by (simp_all add: onPairingComplete_def onNodeDiscovered_def onNodeData_def)

lemma startScan_pairingState: "pairingState (startScan s d now) = pairingState s"
  by (simp add: startScan_def clearDiscoveredNodes_def)

lemma saveNodes_pairingState: "pairingState (snd (saveNodes s)) = pairingState s"
  by (simp add: saveNodes_def emit_def Let_def)

lemma perform_same:
  assumes "sameUpToIdleID s t"
  shows "sameUpToIdleID (perform s c) (perform t c)"
  using assms
proof (cases rule: sameUpToIdleID_cases)
  case 1
  then show ?thesis by (simp add: sameUpToIdleID_refl)
next
  case (2 k)
  note nw = 2(1)
  show ?thesis
  proof (cases c)
    case (StartPairing m now txOk)
    from startPairing_pid [OF nw, of k m now txOk] show ?thesis
    proof
      assume "startPairing (s\<lparr>pairingNodeID := k\<rparr>) m now txOk = startPairing s m now txOk"
      then show ?thesis by (simp add: StartPairing 2(2) sameUpToIdleID_refl)
    next
      assume "startPairing s m now txOk = (False, s)
          \<and> startPairing (s\<lparr>pairingNodeID := k\<rparr>) m now txOk = (False, s\<lparr>pairingNodeID := k\<rparr>)"
      then show ?thesis using nw by (simp add: StartPairing 2(2) sameUpToIdleID_upd)
    qed
  next
    case (RemoveNode j)
    show ?thesis
      using nw by (simp add: RemoveNode 2(2) removeNode_pid sameUpToIdleID_upd removeNode_pairingState)
  next
    case CancelPairing
    show ?thesis by (simp add: CancelPairing 2(2) cancelPairing_pid sameUpToIdleID_refl)
  next
    case (StartScan d now)
    show ?thesis
      using nw by (simp add: StartScan 2(2) scan_pid sameUpToIdleID_upd startScan_pairingState)
  next
    case StopScan
    show ?thesis
      using nw by (simp add: StopScan 2(2) scan_pid sameUpToIdleID_upd stopScan_pairingState)
  next
    case (HandlePacket d now)
    have "sessionView (handlePacket s d now) = sessionView s"
      using nw by (intro handlePacket_session) simp
    then have "pairingState (handlePacket s d now) \<noteq> PAIR_WAITING_ACK"
      using nw by (simp add: sessionView_def)
    then show ?thesis
      using nw by (simp add: HandlePacket 2(2) handlePacket_pid sameUpToIdleID_upd)
  next
    case (Update now rx)
    have "sessionView (update s now rx) = sessionView s"
      using nw by (rule update_session_not_waiting)
    then have "pairingState (update s now rx) \<noteq> PAIR_WAITING_ACK"
      using nw by (simp add: sessionView_def)
    then show ?thesis
      using nw by (simp add: Update 2(2) update_pid sameUpToIdleID_upd)
  next
    case SaveNodesCall
    show ?thesis
      using nw by (simp add: SaveNodesCall 2(2) saveNodes_pid sameUpToIdleID_upd saveNodes_pairingState)
  next
    case OnPairingComplete
    show ?thesis
      using nw by (simp add: OnPairingComplete 2(2) callbacks_pid sameUpToIdleID_upd
          callbacks_pairingState)
  next
    case OnNodeDiscovered
    show ?thesis
      using nw by (simp add: OnNodeDiscovered 2(2) callbacks_pid sameUpToIdleID_upd
          callbacks_pairingState)
  next
    case OnNodeData
    show ?thesis
      using nw by (simp add: OnNodeData 2(2) callbacks_pid sameUpToIdleID_upd
          callbacks_pairingState)
  qed
qed

lemma run_same: "sameUpToIdleID s t \<Longrightarrow> sameUpToIdleID (run s calls) (run t calls)"
  unfolding run_def by (induction calls arbitrary: s t) (simp_all add: perform_same)

lemma startPairing_fst_same:
  assumes "sameUpToIdleID s t"
  shows "fst (startPairing t m now txOk) = fst (startPairing s m now txOk)"
  using assms
proof (cases rule: sameUpToIdleID_cases)
  case 1
  then show ?thesis by simp
next
  case (2 k)
  from startPairing_pid [OF 2(1), of k m now txOk] show ?thesis
    by (auto simp: 2(2))
qed

lemma startPairing_rejected:
  assumes "pairingState s \<noteq> PAIR_IDLE
           \<or> (\<exists>n \<in> set (registeredNodes s). valid n \<and> macAddr n = m)
           \<or> getNextFreeID (registeredNodes s) = 0"
  shows "\<not> fst (startPairing s m now txOk)
       \<and> (snd (startPairing s m now txOk))\<lparr>pairingNodeID := pairingNodeID s\<rparr> = s
       \<and> sameUpToIdleID s (snd (startPairing s m now txOk))"
proof (cases "pairingState s \<noteq> PAIR_IDLE \<or> isNodeRegistered (registeredNodes s) m")
  case True
  then have "startPairing s m now txOk = (False, s)" by (auto simp: startPairing_def)
  then show ?thesis by (simp add: sameUpToIdleID_refl)
next
  case False
  then have z: "getNextFreeID (registeredNodes s) = 0"
    using assms by (auto simp: isNodeRegistered_set)
  have "startPairing s m now txOk = (False, s\<lparr>pairingNodeID := 0\<rparr>)"
    using False z by (simp add: startPairing_def Let_def)
  then show ?thesis using False by (simp add: sameUpToIdleID_upd)
qed

text \<open>
  C3. When the pairing state is not Idle, or a valid registered node has the MAC, or no
  node ID is free, \<open>startPairing\<close> returns false and leaves every member of the manager
  as it was, except that the last case stores the sentinel 0 in \<open>_pairingNodeID\<close>. That
  happens only while the state is Idle, where the member is read by nothing before the
  next \<open>startPairing\<close> assigns it: after any sequence of further calls the manager is the
  same whether or not the rejected call was made, up to that member outside WaitingAck,
  and a further \<open>startPairing\<close> returns the same result. In the first two cases, and so
  in particular while a session is WaitingAck, the manager is left exactly as it was:
  state, target MAC and assigned ID of the session in flight are untouched.
\<close>

theorem C3_startPairing_rejects:
  "(pairingState s \<noteq> PAIR_IDLE
      \<or> (\<exists>n \<in> set (registeredNodes s). valid n \<and> macAddr n = m)
      \<or> getNextFreeID (registeredNodes s) = 0
    \<longrightarrow> \<not> fst (startPairing s m now txOk)
        \<and> (snd (startPairing s m now txOk))\<lparr>pairingNodeID := pairingNodeID s\<rparr> = s
        \<and> sameUpToIdleID s (snd (startPairing s m now txOk))
        \<and> sameUpToIdleID (run s calls) (run (snd (startPairing s m now txOk)) calls)
        \<and> fst (startPairing (run (snd (startPairing s m now txOk)) calls) m' now' txOk')
            = fst (startPairing (run s calls) m' now' txOk'))
   \<and> (pairingState s \<noteq> PAIR_IDLE \<or> (\<exists>n \<in> set (registeredNodes s). valid n \<and> macAddr n = m)
    \<longrightarrow> startPairing s m now txOk = (False, s))
   \<and> (pairingState s = PAIR_WAITING_ACK
    \<longrightarrow> startPairing s m now txOk = (False, s)
        \<and> pairingState (snd (startPairing s m now txOk)) = PAIR_WAITING_ACK
        \<and> pairingMAC (snd (startPairing s m now txOk)) = pairingMAC s
        \<and> pairingNodeID (snd (startPairing s m now txOk)) = pairingNodeID s)"
proof -
  have a: "\<not> fst (startPairing s m now txOk)
        \<and> (snd (startPairing s m now txOk))\<lparr>pairingNodeID := pairingNodeID s\<rparr> = s
        \<and> sameUpToIdleID s (snd (startPairing s m now txOk))
        \<and> sameUpToIdleID (run s calls) (run (snd (startPairing s m now txOk)) calls)
        \<and> fst (startPairing (run (snd (startPairing s m now txOk)) calls) m' now' txOk')
            = fst (startPairing (run s calls) m' now' txOk')"
    if c: "pairingState s \<noteq> PAIR_IDLE
      \<or> (\<exists>n \<in> set (registeredNodes s). valid n \<and> macAddr n = m)
      \<or> getNextFreeID (registeredNodes s) = 0"
  proof -
    note r = startPairing_rejected [OF c, of now txOk]
    then have same: "sameUpToIdleID s (snd (startPairing s m now txOk))" by simp
    note later = run_same [OF same, of calls]
    show ?thesis using r later startPairing_fst_same [OF later] by simp
  qed
  have b: "startPairing s m now txOk = (False, s)"
    if "pairingState s \<noteq> PAIR_IDLE \<or> (\<exists>n \<in> set (registeredNodes s). valid n \<and> macAddr n = m)"
    using that by (auto simp: startPairing_def isNodeRegistered_set)
  have w: "pairingState s = PAIR_WAITING_ACK \<Longrightarrow> pairingState s \<noteq> PAIR_IDLE" by simp
  show ?thesis using a b w by (auto simp del: split_paired_Ex)
qed

theorem C3_startPairing_rejects_witness:
  "pairingState scenarioB = PAIR_WAITING_ACK \<and>
   startPairing scenarioB (testMAC 9) 500 True = (False, scenarioB) \<and>
   map macAddr (registeredNodes pairedState) = [scenarioMAC] \<and>
   startPairing pairedState scenarioMAC 500 True = (False, pairedState) \<and>
   getNextFreeID (registeredNodes (run bootedState (pairMany 254))) = 0 \<and>
   \<not> fst (startPairing (run bootedState (pairMany 254)) (testMAC 255) 0 True) \<and>
   (snd (startPairing (run bootedState (pairMany 254)) (testMAC 255) 0 True))
      \<lparr>pairingNodeID := pairingNodeID (run bootedState (pairMany 254))\<rparr>
     = run bootedState (pairMany 254) \<and>
   sameUpToIdleID
     (run (run bootedState (pairMany 254)) [RemoveNode 7, StartPairing (testMAC 255) 1 True])
     (run (snd (startPairing (run bootedState (pairMany 254)) (testMAC 255) 0 True))
        [RemoveNode 7, StartPairing (testMAC 255) 1 True])"
proof -
  define s where "s = run bootedState (pairMany 254)"
  have f: "filledTo 254 s" unfolding s_def by (rule pairMany_filled) simp
  have regs: "registeredNodes s = map testNode [1..<Suc 254]"
    using f by (simp add: filledTo_def)
  have full: "getNextFreeID (registeredNodes s) = 0"
    unfolding regs using getNextFreeID_full by simp
  have reg: "\<exists>n \<in> set (registeredNodes pairedState). valid n \<and> macAddr n = scenarioMAC"
    using pairedState_fields(3,4) by (cases "registeredNodes pairedState") auto
  have a: "startPairing scenarioB (testMAC 9) 500 True = (False, scenarioB)"
    using C3_startPairing_rejects [of scenarioB "testMAC 9" 500 True "[]" "testMAC 9" 0 True]
    by (simp add: scenarioB_fields)
  have b: "startPairing pairedState scenarioMAC 500 True = (False, pairedState)"
    using C3_startPairing_rejects [of pairedState scenarioMAC 500 True "[]" scenarioMAC 0 True] reg
    by blast
  have c: "\<not> fst (startPairing s (testMAC 255) 0 True)
      \<and> (snd (startPairing s (testMAC 255) 0 True))\<lparr>pairingNodeID := pairingNodeID s\<rparr> = s
      \<and> sameUpToIdleID
          (run s [RemoveNode 7, StartPairing (testMAC 255) 1 True])
          (run (snd (startPairing s (testMAC 255) 0 True))
             [RemoveNode 7, StartPairing (testMAC 255) 1 True])"
    using C3_startPairing_rejects [of s "testMAC 255" 0 True
        "[RemoveNode 7, StartPairing (testMAC 255) 1 True]" "testMAC 255" 0 True] full
    by blast
  show ?thesis
    using a b c full unfolding s_def
    by (simp add: scenarioB_fields(1) pairedState_fields(3))
qed

subsection \<open>Loading the registry\<close>

lemma fromJson_toJson:
  "fromJson u (toJson n) =
     \<lparr> nodeID = nodeID n, macAddr = macAddr n, deviceType = deviceType n,
       name = strlcpy32 (name n), relayStatus = 0, lastRSSI = 0, lastSNR = 0, uptime = 0,
       lastSeen = 0, online = False, valid = True \<rparr>"
  by (simp add: fromJson_def toJson_def stringToMAC_roundtrip)

lemma stringToMAC_buffer:
  "fst (stringToMAC str a) = fst (stringToMAC str b) \<and>
   (fst (stringToMAC str a) \<longrightarrow> snd (stringToMAC str a) = snd (stringToMAC str b)) \<and>
   (\<not> fst (stringToMAC str a) \<longrightarrow> snd (stringToMAC str a) = a)"
  by (simp add: stringToMAC_def Let_def)

lemma loadLoop_length: "length (loadLoop u i arr) = length arr"
  by (induction arr arbitrary: i) simp_all

lemma loadLoop_ids:
  "map nodeID (loadLoop u i arr) = map j_id arr \<and>
   map deviceType (loadLoop u i arr) = map j_type arr"
  by (induction arr arbitrary: i) (simp_all add: fromJson_def)

lemma loadLoop_reset:
  "list_all (\<lambda>n. \<not> online n \<and> lastSeen n = 0 \<and> relayStatus n = 0 \<and> lastRSSI n = 0
                      \<and> lastSNR n = 0 \<and> uptime n = 0 \<and> valid n) (loadLoop u i arr)"
  by (induction arr arbitrary: i) (simp_all add: fromJson_def)

text \<open>When \<open>stringToMAC\<close> accepts the MAC string of every record, the nodes do not depend
  on what the local held.\<close>

lemma loadLoop_wellformed:
  "list_all (\<lambda>j. fst (stringToMAC (j_mac j) m0)) arr \<Longrightarrow>
     loadLoop u i arr = map (fromJson m0) arr"
proof (induction arr arbitrary: i)
  case Nil
  then show ?case by simp
next
  case (Cons j arr)
  have "fst (stringToMAC (j_mac j) m0)" using Cons.prems by simp
  then have "snd (stringToMAC (j_mac j) (u i)) = snd (stringToMAC (j_mac j) m0)"
    using stringToMAC_buffer [of "j_mac j" m0 "u i"] by simp
  then have "fromJson (u i) j = fromJson m0 j" by (simp add: fromJson_def)
  then show ?case using Cons by simp
qed

lemma loadLoop_toJson:
  "loadLoop u i (map toJson xs) =
     map (\<lambda>n. \<lparr> nodeID = nodeID n, macAddr = macAddr n, deviceType = deviceType n,
                name = strlcpy32 (name n), relayStatus = 0, lastRSSI = 0, lastSNR = 0,
                uptime = 0, lastSeen = 0, online = False, valid = True \<rparr>) xs"
  by (induction xs arbitrary: i) (simp_all add: fromJson_toJson)

text \<open>What \<open>loadNodes\<close> does on a file that parses, on a file it has written itself,
  and on a file it cannot read.\<close>

lemma loadNodes_parsed:
  "nodesFile s = Parsed arr \<Longrightarrow>
     loadNodes s u = (True, s\<lparr>registeredNodes := loadLoop u 0 arr\<rparr>)"
  by (simp add: loadNodes_def)

lemma loadNodes_after_saveNodes:
  "flashWritable s \<Longrightarrow>
     fst (loadNodes (snd (saveNodes s)) u) \<and>
     registeredNodes (snd (loadNodes (snd (saveNodes s)) u)) =
       map (\<lambda>n. \<lparr> nodeID = nodeID n, macAddr = macAddr n, deviceType = deviceType n,
                  name = strlcpy32 (name n), relayStatus = 0, lastRSSI = 0, lastSNR = 0,
                  uptime = 0, lastSeen = 0, online = False, valid = True \<rparr>)
           (filter valid (registeredNodes s))"
  by (simp add: loadNodes_def saveNodes_def emit_def Let_def loadLoop_toJson)

lemma loadNodes_unreadable:
  "nodesFile s = NoFile \<or> nodesFile s = OpenFails \<or> nodesFile s = ParseError \<Longrightarrow>
     loadNodes s u = (False, s) \<and> fst (lora_begin s u) \<and> initialized (snd (lora_begin s u))"
  by (auto simp: loadNodes_def lora_begin_def Let_def)

lemma six: "(6::nat) = Suc (Suc (Suc (Suc (Suc (Suc 0)))))"
  by simp

lemma stringToMAC_upper:
  "stringToMAC ''AA:BB:CC:11:22:33'' u = (True, scenarioMAC)"
  by (simp add: stringToMAC_def six scanf_x_def skipSign_def skipHexPrefix_def isspace_def
      hexDigitValue_def scenarioMAC_def)

lemma stringToMAC_mixed:
  "stringToMAC ''00:1a:2B:3c:4D:5e'' u = (True, MAC 0x00 0x1A 0x2B 0x3C 0x4D 0x5E)"
  by (simp add: stringToMAC_def six scanf_x_def skipSign_def skipHexPrefix_def isspace_def
      hexDigitValue_def)

lemma stringToMAC_rejects:
  "stringToMAC ''not a MAC address'' u = (False, u)"
  by (simp add: stringToMAC_def six scanf_x_def skipSign_def skipHexPrefix_def isspace_def
      hexDigitValue_def)

lemma scenarioE_loaded:
  "loadLoop u 0 scenarioE_records =
     [\<lparr> nodeID = 3, macAddr = scenarioMAC, deviceType = 1, name = ''Pump'',
        relayStatus = 0, lastRSSI = 0, lastSNR = 0, uptime = 0, lastSeen = 0,
        online = False, valid = True \<rparr>,
      \<lparr> nodeID = 4, macAddr = MAC 0x00 0x1A 0x2B 0x3C 0x4D 0x5E, deviceType = 2,
        name = ''Unknown'', relayStatus = 0, lastRSSI = 0, lastSNR = 0, uptime = 0,
        lastSeen = 0, online = False, valid = True \<rparr>]"
  by (simp add: scenarioE_records_def fromJson_def stringToMAC_upper stringToMAC_mixed
      strlcpy32_def)

text \<open>
  C9 (the code falls short of it). \<open>loadNodes\<close> does not look at the result of
  \<open>stringToMAC\<close>. On a file that parses and whose second record has a MAC string that
  \<open>stringToMAC\<close> rejects, it returns true and registers two valid nodes, with the IDs of
  the file; but the MAC of the second is not taken from the file: it is whatever the
  uninitialised local held. When that is the MAC of the pass before, two valid nodes
  share a MAC.
\<close>

theorem C9_loadNodes_bad_mac:
  "fst (loadNodes (s\<lparr>nodesFile := Parsed badMacRecords\<rparr>) uninit)
   \<and> map nodeID (registeredNodes (snd (loadNodes (s\<lparr>nodesFile := Parsed badMacRecords\<rparr>) uninit)))
       = [3, 4]
   \<and> map valid (registeredNodes (snd (loadNodes (s\<lparr>nodesFile := Parsed badMacRecords\<rparr>) uninit)))
       = [True, True]
   \<and> map macAddr (registeredNodes (snd (loadNodes (s\<lparr>nodesFile := Parsed badMacRecords\<rparr>) uninit)))
       = [scenarioMAC, uninit 1]
   \<and> \<not> uniqueMACs
         (registeredNodes
            (snd (loadNodes (s\<lparr>nodesFile := Parsed badMacRecords\<rparr>) (\<lambda>i. scenarioMAC))))"
proof -
  have l: "loadLoop u 0 badMacRecords =
      [fromJson (u 0) \<lparr>j_id = 3, j_mac = ''AA:BB:CC:11:22:33'', j_type = 1, j_name = Some ''Pump''\<rparr>,
       fromJson (u 1) \<lparr>j_id = 4, j_mac = ''not a MAC address'', j_type = 2, j_name = Some ''Fan''\<rparr>]"
    for u
    by (simp add: badMacRecords_def)
  have m: "map macAddr (loadLoop u 0 badMacRecords) = [scenarioMAC, u 1]"
    and i: "map nodeID (loadLoop u 0 badMacRecords) = [3, 4]"
    and v: "map valid (loadLoop u 0 badMacRecords) = [True, True]" for u
    unfolding l by (simp_all add: fromJson_def stringToMAC_upper stringToMAC_rejects)
  have f: "filter valid (loadLoop u 0 badMacRecords) = loadLoop u 0 badMacRecords" for u
    unfolding l by (simp add: fromJson_def)
  have d: "\<not> uniqueMACs (loadLoop (\<lambda>i. scenarioMAC) 0 badMacRecords)"
    unfolding uniqueMACs_def f m by simp
  show ?thesis
    using m [of uninit] i [of uninit] v [of uninit] d by (simp add: loadNodes_def)
qed

end
